theory Spec2Isabelle
  imports Main "HOL-Library.Sublist"
begin

section \<open>Python strings\<close>

text \<open>
  A Python \<open>str\<close> is a sequence of Unicode code points and \<open>len\<close> counts code points.
  A code point is modelled by its number, a string by the list of its code points.
  Python's code points are the numbers below \<open>0x110000\<close>; no function below depends on
  that bound.
\<close>

type_synonym codepoint = nat
type_synonym pystr = "codepoint list"

abbreviation LF :: codepoint where "LF \<equiv> 10"
abbreviation CR :: codepoint where "CR \<equiv> 13"
abbreviation SPACE :: codepoint where "SPACE \<equiv> 32"
abbreviation COMMA :: codepoint where "COMMA \<equiv> 44"
abbreviation SEMICOLON :: codepoint where "SEMICOLON \<equiv> 59"
abbreviation BACKSLASH :: codepoint where "BACKSLASH \<equiv> 92"
abbreviation LETTER_n :: codepoint where "LETTER_n \<equiv> 110"

text \<open>The string literals of the source are ASCII; \<open>ascii\<close> reads one as a \<open>pystr\<close>.\<close>

definition ascii :: "string \<Rightarrow> pystr" where
  "ascii cs = map of_char cs"

abbreviation CRLF :: pystr where "CRLF \<equiv> [CR, LF]"

text \<open>
  \<open>s.startswith(p)\<close> is \<^const>\<open>prefix\<close> \<open>p s\<close>.

  \<open>s.replace(old, new)\<close> replaces the non-overlapping occurrences of \<open>old\<close>, found from
  the left. With an empty \<open>old\<close> Python puts \<open>new\<close> before every code point and at
  the end.
\<close>

fun py_replace_ne :: "'a list \<Rightarrow> 'a list \<Rightarrow> 'a list \<Rightarrow> 'a list" where
  "py_replace_ne old new [] = []"
| "py_replace_ne old new (c # cs) =
     (if prefix old (c # cs) then new @ py_replace_ne old new (drop (length old - 1) cs)
      else c # py_replace_ne old new cs)"

definition py_replace :: "'a list \<Rightarrow> 'a list \<Rightarrow> 'a list \<Rightarrow> 'a list" where
  "py_replace old new s =
     (if old = [] then new @ concat (map (\<lambda>c. c # new) s) else py_replace_ne old new s)"

text \<open>\<open>sep.join(xs)\<close>.\<close>

fun py_join :: "'a list \<Rightarrow> 'a list list \<Rightarrow> 'a list" where
  "py_join sep [] = []"
| "py_join sep [x] = x"
| "py_join sep (x # y # ys) = x @ sep @ py_join sep (y # ys)"

text \<open>
  \<open>s.split(sep)\<close> cuts at the non-overlapping occurrences of \<open>sep\<close>, found from the
  left; an empty \<open>sep\<close> raises \<open>ValueError\<close> (empty separator).
\<close>

fun py_split_ne :: "'a list \<Rightarrow> 'a list \<Rightarrow> 'a list list" where
  "py_split_ne sep [] = [[]]"
| "py_split_ne sep (c # cs) =
     (if prefix sep (c # cs) then [] # py_split_ne sep (drop (length sep - 1) cs)
      else (let r = py_split_ne sep cs in (c # hd r) # tl r))"

text \<open>\<open>sub in s\<close>.\<close>

fun py_contains :: "'a list \<Rightarrow> 'a list \<Rightarrow> bool" where
  "py_contains sub [] = (sub = [])"
| "py_contains sub (c # cs) = (prefix sub (c # cs) \<or> py_contains sub cs)"

text \<open>
  \<open>range(0, stop, step)\<close> for \<open>stop \<ge> 0\<close>: empty for a negative step,
  \<open>ValueError\<close> for step 0. \<open>xs[i:j]\<close> for \<open>0 \<le> i \<le> j\<close>; a slice stops at the
  end of the list.
\<close>

definition slice :: "'a list \<Rightarrow> nat \<Rightarrow> nat \<Rightarrow> 'a list" where
  "slice xs i j = take (j - i) (drop i xs)"

text \<open>
  Whitespace, as \<open>str.strip()\<close> and \<open>str.split()\<close> without argument see it: the code
  points for which \<open>str.isspace\<close> holds.
\<close>

definition py_isspace :: "codepoint \<Rightarrow> bool" where
  "py_isspace c =
     ((9 \<le> c \<and> c \<le> 13) \<or> (28 \<le> c \<and> c \<le> 32) \<or> c = 133 \<or> c = 160 \<or> c = 5760
      \<or> (8192 \<le> c \<and> c \<le> 8202) \<or> c = 8232 \<or> c = 8233 \<or> c = 8239 \<or> c = 8287
      \<or> c = 12288)"

definition py_strip :: "pystr \<Rightarrow> pystr" where
  "py_strip s = rev (dropWhile py_isspace (rev (dropWhile py_isspace s)))"

function py_split_ws :: "pystr \<Rightarrow> pystr list" where
  "py_split_ws s =
     (let s' = dropWhile py_isspace s
      in if s' = [] then []
         else takeWhile (\<lambda>c. \<not> py_isspace c) s'
                # py_split_ws (dropWhile (\<lambda>c. \<not> py_isspace c) s'))"
  by pat_completeness auto
termination
proof (relation "measure length")
  show "wf (measure length)" by simp
next
  fix s s' :: pystr
  assume s': "s' = dropWhile py_isspace s" and ne: "s' \<noteq> []"
  from ne obtain c r where cr: "s' = c # r" by (cases s') auto
  have "dropWhile py_isspace s \<noteq> []"
    using ne s' by simp
  then have "\<not> py_isspace (hd (dropWhile py_isspace s))"
    by (rule hd_dropWhile)
  then have nsp: "\<not> py_isspace c"
    using s' cr by (metis list.sel(1))
  have "length (dropWhile (\<lambda>c. \<not> py_isspace c) s') \<le> length r"
    using cr nsp by (simp add: length_dropWhile_le)
  also have "length r < length s'" using cr by simp
  also have "length s' \<le> length s" using s' by (simp add: length_dropWhile_le)
  finally show "(dropWhile (\<lambda>c. \<not> py_isspace c) s', s) \<in> measure length" by simp
qed

declare py_split_ws.simps [simp del]

section \<open>Errors and messages\<close>

text \<open>
  Every failure of the source is a \<open>ValueError\<close>. The ones the source raises itself are
  named as the specification names them, with what tells the source's messages apart;
  the others are the ones Python's own operations raise.
\<close>

datatype uri_field = Avatar | PgpKey

datatype fingerprint_problem = InvalidCharacters | WrongLength

datatype error =
    InvalidURIError uri_field
  | InvalidFingerprintError fingerprint_problem
  | PayloadTooLargeError nat
  | UnicodeEncodeError
  | EmptySeparator
  | RangeStepZero

text \<open>What \<open>approx_size_warn_and_check\<close> prints to the error stream.\<close>

datatype message = SizeWarning nat

definition py_split :: "'a list \<Rightarrow> 'a list \<Rightarrow> error + 'a list list" where
  "py_split sep s = (if sep = [] then Inl EmptySeparator else Inr (py_split_ne sep s))"

definition py_range :: "nat \<Rightarrow> int \<Rightarrow> error + nat list" where
  "py_range stop step =
     (if step = 0 then Inl RangeStepZero
      else if step < 0 then Inr []
      else Inr (map (\<lambda>k. k * nat step) [0 ..< (stop + nat step - 1) div nat step]))"

text \<open>
  \<open>len(s.encode("utf-8"))\<close>: the encoder writes one to four bytes for a code point and
  raises \<open>UnicodeEncodeError\<close>, a \<open>ValueError\<close>, at a surrogate (\<open>D800\<close> to \<open>DFFF\<close>).
\<close>

definition utf8_width :: "codepoint \<Rightarrow> nat option" where
  "utf8_width c =
     (if c < 128 then Some 1
      else if c < 2048 then Some 2
      else if 55296 \<le> c \<and> c \<le> 57343 then None
      else if c < 65536 then Some 3
      else Some 4)"

fun utf8_length :: "pystr \<Rightarrow> error + nat" where
  "utf8_length [] = Inr 0"
| "utf8_length (c # cs) =
     (case utf8_width c of
        None \<Rightarrow> Inl UnicodeEncodeError
      | Some k \<Rightarrow> (case utf8_length cs of Inl e \<Rightarrow> Inl e | Inr n \<Rightarrow> Inr (k + n)))"

text \<open>A loop body that may raise, run over a list: the first error ends the loop.\<close>

fun map_result :: "('a \<Rightarrow> error + 'b) \<Rightarrow> 'a list \<Rightarrow> error + 'b list" where
  "map_result f [] = Inr []"
| "map_result f (x # xs) =
     (case f x of
        Inl e \<Rightarrow> Inl e
      | Inr y \<Rightarrow> (case map_result f xs of Inl e \<Rightarrow> Inl e | Inr ys \<Rightarrow> Inr (y # ys)))"

text \<open>An \<open>Optional[str]\<close> in a condition: \<open>None\<close> and \<open>""\<close> are falsy. \<open>s or ""\<close>.\<close>

definition str_or_empty :: "pystr option \<Rightarrow> pystr" where
  "str_or_empty so = (case so of None \<Rightarrow> [] | Some s \<Rightarrow> s)"

definition truthy :: "pystr option \<Rightarrow> bool" where
  "truthy so = (str_or_empty so \<noteq> [])"

section \<open>The Field Escaper\<close>

text \<open>
  \<^verbatim>\<open>
  def escape_vcard_value(s: Optional[str]) -> str:
      if not s:
          return ""
      s = s.replace("\\", "\\\\")
      s = s.replace(";", "\\;")
      s = s.replace(",", "\\,")
      s = s.replace("\r\n", "\\n").replace("\n", "\\n")
      return s
  \<close>
  \<open>None\<close> and the empty string are both falsy.
\<close>

definition escape_vcard_value :: "pystr option \<Rightarrow> pystr" where
  "escape_vcard_value so =
     (case so of
        None \<Rightarrow> []
      | Some s \<Rightarrow>
          if s = [] then []
          else
            (let s1 = py_replace [BACKSLASH] [BACKSLASH, BACKSLASH] s;
                 s2 = py_replace [SEMICOLON] [BACKSLASH, SEMICOLON] s1;
                 s3 = py_replace [COMMA] [BACKSLASH, COMMA] s2;
                 s4 = py_replace [LF] [BACKSLASH, LETTER_n]
                        (py_replace CRLF [BACKSLASH, LETTER_n] s3)
             in s4))"

subsection \<open>The escaper as the specification words it\<close>

text \<open>
  The specification gives four ordered steps, each on the string the step before left.
  Steps 1 to 3 replace every occurrence of one character by a two-character sequence;
  step 4 replaces every CRLF or LF sequence by backslash-n, read as one pass from the
  left in which a CR directly before an LF belongs to that LF's sequence.
\<close>

definition subst_char :: "codepoint \<Rightarrow> pystr \<Rightarrow> pystr \<Rightarrow> pystr" where
  "subst_char x y s = concat (map (\<lambda>c. if c = x then y else [c]) s)"

fun newlines_to_n :: "pystr \<Rightarrow> pystr" where
  "newlines_to_n [] = []"
| "newlines_to_n [a] = (if a = LF then [BACKSLASH, LETTER_n] else [a])"
| "newlines_to_n (a # b # cs) =
     (if a = CR \<and> b = LF then [BACKSLASH, LETTER_n] @ newlines_to_n cs
      else if a = LF then [BACKSLASH, LETTER_n] @ newlines_to_n (b # cs)
      else a # newlines_to_n (b # cs))"

definition spec_escape :: "pystr option \<Rightarrow> pystr" where
  "spec_escape so =
     (case so of
        None \<Rightarrow> []
      | Some s \<Rightarrow>
          newlines_to_n
            (subst_char COMMA [BACKSLASH, COMMA]
              (subst_char SEMICOLON [BACKSLASH, SEMICOLON]
                (subst_char BACKSLASH [BACKSLASH, BACKSLASH] s))))"

subsection \<open>Reading an escaped value\<close>

text \<open>
  An escaped value is read from the left. A backslash opens an escape sequence of two
  characters, the second being a backslash, a semicolon, a comma or the letter n. A
  semicolon or a comma met outside an escape sequence is a raw delimiter, and so is a
  backslash that opens no such sequence.
\<close>

fun well_escaped :: "pystr \<Rightarrow> bool" where
  "well_escaped [] = True"
| "well_escaped [a] = (a \<noteq> BACKSLASH \<and> a \<noteq> SEMICOLON \<and> a \<noteq> COMMA)"
| "well_escaped (a # b # cs) =
     (if a = BACKSLASH
      then (b = BACKSLASH \<or> b = SEMICOLON \<or> b = COMMA \<or> b = LETTER_n) \<and> well_escaped cs
      else a \<noteq> SEMICOLON \<and> a \<noteq> COMMA \<and> well_escaped (b # cs))"

text \<open>A CR that is not directly followed by an LF.\<close>

fun lone_cr :: "pystr \<Rightarrow> bool" where
  "lone_cr [] = False"
| "lone_cr [a] = (a = CR)"
| "lone_cr (a # b # cs) =
     (if a = CR \<and> b = LF then lone_cr cs else a = CR \<or> lone_cr (b # cs))"

text \<open>The escaper as one pass over the input: what each input character becomes.\<close>

definition esc_token :: "codepoint \<Rightarrow> pystr" where
  "esc_token a =
     (if a = BACKSLASH then [BACKSLASH, BACKSLASH]
      else if a = SEMICOLON then [BACKSLASH, SEMICOLON]
      else if a = COMMA then [BACKSLASH, COMMA]
      else if a = LF then [BACKSLASH, LETTER_n]
      else [a])"

fun esc_scan :: "pystr \<Rightarrow> pystr" where
  "esc_scan [] = []"
| "esc_scan [a] = esc_token a"
| "esc_scan (a # b # cs) =
     (if a = CR \<and> b = LF then [BACKSLASH, LETTER_n] @ esc_scan cs
      else esc_token a @ esc_scan (b # cs))"

section \<open>The Line Folder\<close>

text \<open>
  \<^verbatim>\<open>
  def fold_vcard_line(line: str, width: int = 75, line_ending: str = "\r\n") -> str:
      if len(line) <= width:
          return line
      parts = [line[i:i+width] for i in range(0, len(line), width)]
      sep = line_ending + " "
      return sep.join(parts)
  \<close>
\<close>

definition fold_parts :: "pystr \<Rightarrow> int \<Rightarrow> error + pystr list" where
  "fold_parts line width =
     (case py_range (length line) width of
        Inl e \<Rightarrow> Inl e
      | Inr starts \<Rightarrow> Inr (map (\<lambda>i. slice line i (i + nat width)) starts))"

definition fold_vcard_line :: "pystr \<Rightarrow> int \<Rightarrow> pystr \<Rightarrow> error + pystr" where
  "fold_vcard_line line width line_ending =
     (if int (length line) \<le> width then Inr line
      else
        (case fold_parts line width of
           Inl e \<Rightarrow> Inl e
         | Inr parts \<Rightarrow> Inr (py_join (line_ending @ [SPACE]) parts)))"

section \<open>Fingerprints and URLs\<close>

text \<open>
  \<^verbatim>\<open>
  def is_http_url(s: str) -> bool:
      return bool(s) and (s.startswith("http://") or s.startswith("https://"))
  \<close>
\<close>

definition is_http_url :: "pystr \<Rightarrow> bool" where
  "is_http_url s =
     (s \<noteq> [] \<and> (prefix (ascii ''http://'') s \<or> prefix (ascii ''https://'') s))"

text \<open>
  \<^verbatim>\<open>
  def normalize_fingerprint(fp: str) -> str:
      if not fp:
          return ""
      s = re.sub(r"[^0-9A-Fa-f]", "", fp).upper()
      if not re.fullmatch(r"[0-9A-F]+", s):
          raise ValueError("Fingerprint contains invalid characters")
      if len(s) not in (8, 16, 40):
          raise ValueError("Fingerprint must be 8, 16, or 40 hex characters ...")
      return s
  \<close>
  \<open>upper_ascii\<close> is \<open>str.upper\<close> on ASCII; it is applied to hexadecimal digits only.
\<close>

definition is_hex :: "codepoint \<Rightarrow> bool" where
  "is_hex c = ((48 \<le> c \<and> c \<le> 57) \<or> (65 \<le> c \<and> c \<le> 70) \<or> (97 \<le> c \<and> c \<le> 102))"

definition is_upper_hex :: "codepoint \<Rightarrow> bool" where
  "is_upper_hex c = ((48 \<le> c \<and> c \<le> 57) \<or> (65 \<le> c \<and> c \<le> 70))"

definition upper_ascii :: "codepoint \<Rightarrow> codepoint" where
  "upper_ascii c = (if 97 \<le> c \<and> c \<le> 122 then c - 32 else c)"

definition normalize_fingerprint :: "pystr \<Rightarrow> error + pystr" where
  "normalize_fingerprint fp =
     (if fp = [] then Inr []
      else
        (let s = map upper_ascii (filter is_hex fp)
         in if \<not> (s \<noteq> [] \<and> list_all is_upper_hex s)
            then Inl (InvalidFingerprintError InvalidCharacters)
            else if length s \<noteq> 8 \<and> length s \<noteq> 16 \<and> length s \<noteq> 40
            then Inl (InvalidFingerprintError WrongLength)
            else Inr s))"

section \<open>The Record Builder\<close>

text \<open>The keyword arguments of \<open>build_vcard\<close>.\<close>

record vcard_args =
  full_name :: pystr
  given :: pystr
  surname :: pystr
  preferred_name :: pystr
  email :: "pystr option"
  phone :: "pystr option"
  github :: "pystr option"
  city :: "pystr option"
  country :: "pystr option"
  note_text :: "pystr option"
  avatar_uri :: "pystr option"
  pgp_key_uri :: "pystr option"
  pgp_fingerprint :: "pystr option"
  line_ending :: pystr

text \<open>
  The list \<open>lines\<close> of \<open>build_vcard\<close> as it stands after \<open>lines.append("END:VCARD")\<close>,
  or the error raised on the way. The appends are written as one concatenation, in
  the order of the source; the two checks that raise stand where the source has them.
  (\<open>note_text\<close> is the parameter \<open>note\<close>.)
\<close>

definition github_url_of :: "pystr option \<Rightarrow> pystr" where
  "github_url_of gh =
     (if truthy gh
      then (if is_http_url (str_or_empty gh) then str_or_empty gh
            else ascii ''https://github.com/'' @ str_or_empty gh)
      else [])"

definition vcard_lines :: "vcard_args \<Rightarrow> error + pystr list" where
  "vcard_lines a =
     (let fn = full_name a;
          family = escape_vcard_value (Some (surname a));
          given_e = escape_vcard_value (Some (given a));
          n_field = ascii ''N:'' @ family @ ascii '';'' @ given_e @ ascii '';;;'';
          email_e = escape_vcard_value (email a);
          tel = escape_vcard_value (phone a);
          github_url = github_url_of (github a);
          x_social =
            (if truthy (github a)
             then ascii ''X-SOCIALPROFILE;TYPE=github:'' @ escape_vcard_value (Some github_url)
             else []);
          apple_item_lines =
            (if truthy (github a)
             then [ascii ''item1.URL;type=pref:'' @ escape_vcard_value (Some github_url),
                   ascii ''item1.X-ABLabel:GitHub'']
             else []);
          locality = escape_vcard_value (city a);
          country_e = escape_vcard_value (country a);
          note_e = escape_vcard_value (note_text a);
          adr = ascii ''ADR:;;;'' @ locality @ ascii '';;'' @ country_e;
          lines =
            [ascii ''BEGIN:VCARD'', ascii ''VERSION:3.0'',
             ascii ''FN:'' @ escape_vcard_value (Some fn), n_field]
            @ (if tel \<noteq> [] then [ascii ''TEL;TYPE=CELL:'' @ tel] else [])
            @ (if email_e \<noteq> [] then [ascii ''EMAIL;TYPE=INTERNET:'' @ email_e] else [])
            @ (if github_url \<noteq> []
               then [ascii ''URL:'' @ escape_vcard_value (Some github_url)] else [])
            @ (if x_social \<noteq> [] then [x_social] else [])
            @ apple_item_lines
            @ (if locality \<noteq> [] \<or> country_e \<noteq> [] then [adr] else [])
            @ (if note_e \<noteq> [] then [ascii ''NOTE:'' @ note_e] else [])
      in
        if truthy (avatar_uri a) \<and> \<not> is_http_url (str_or_empty (avatar_uri a))
        then Inl (InvalidURIError Avatar)
        else if truthy (pgp_key_uri a) \<and> \<not> is_http_url (str_or_empty (pgp_key_uri a))
        then Inl (InvalidURIError PgpKey)
        else
          Inr (lines
            @ (if truthy (avatar_uri a)
               then [ascii ''PHOTO;VALUE=URI:'' @ escape_vcard_value (avatar_uri a)] else [])
            @ (if truthy (pgp_key_uri a)
               then [ascii ''KEY;VALUE=URI:'' @ escape_vcard_value (pgp_key_uri a)] else [])
            @ (if truthy (pgp_fingerprint a)
               then [ascii ''X-PGP-FP:'' @ escape_vcard_value (pgp_fingerprint a)] else [])
            @ (if preferred_name a \<noteq> []
               then [ascii ''NICKNAME:'' @ escape_vcard_value (Some (preferred_name a)),
                     ascii ''X-PREFERRED-NAME:''
                       @ escape_vcard_value (Some (preferred_name a))]
               else [])
            @ [ascii ''END:VCARD'']))"

text \<open>
  \<^verbatim>\<open>
      joined = line_ending.join(lines)
      folded_lines = []
      for L in joined.split(line_ending):
          folded_lines.append(fold_vcard_line(L, width=75, line_ending=line_ending))
      return line_ending.join(folded_lines) + line_ending
  \<close>
\<close>

definition build_vcard :: "vcard_args \<Rightarrow> error + pystr" where
  "build_vcard a =
     (case vcard_lines a of
        Inl e \<Rightarrow> Inl e
      | Inr lines \<Rightarrow>
          (let joined = py_join (line_ending a) lines
           in case py_split (line_ending a) joined of
                Inl e \<Rightarrow> Inl e
              | Inr logical \<Rightarrow>
                  (case map_result (\<lambda>L. fold_vcard_line L 75 (line_ending a)) logical of
                     Inl e \<Rightarrow> Inl e
                   | Inr folded_lines \<Rightarrow>
                       Inr (py_join (line_ending a) folded_lines @ line_ending a))))"

section \<open>The Size Validator\<close>

text \<open>
  \<^verbatim>\<open>
  WARN_QR_BYTES = 2000
  MAX_QR_BYTES = 2950

  def approx_size_warn_and_check(s: str):
      length = len(s.encode("utf-8"))
      if length > WARN_QR_BYTES:
          print(f"Warning: vCard content is approximately {length} bytes. ...", file=sys.stderr)
      if length > MAX_QR_BYTES:
          raise ValueError(f"vCard content is too large for a practical QR ({length} bytes). ...")
  \<close>
  The result is what was printed, and the error raised or \<open>None\<close> returned.
  No string is returned: the payload stays the caller's. (\<open>len\<close> is the variable
  \<open>length\<close>.)
\<close>

definition WARN_QR_BYTES :: nat where
  "WARN_QR_BYTES = 2000"

definition MAX_QR_BYTES :: nat where
  "MAX_QR_BYTES = 2950"

definition approx_size_warn_and_check :: "pystr \<Rightarrow> message list \<times> (error + unit)" where
  "approx_size_warn_and_check s =
     (case utf8_length s of
        Inl e \<Rightarrow> ([], Inl e)
      | Inr len \<Rightarrow>
          ((if len > WARN_QR_BYTES then [SizeWarning len] else []),
           (if len > MAX_QR_BYTES then Inl (PayloadTooLargeError len) else Inr ())))"

section \<open>Name resolution in \<open>main\<close>\<close>

text \<open>
  \<^verbatim>\<open>
      given = args.given.strip()
      surname = args.surname.strip()
      if not (given or surname):
          name_tokens = args.name.strip().split()
          if len(name_tokens) >= 2:
              surname = name_tokens[-1]
              given = " ".join(name_tokens[:-1])
          else:
              given = args.name.strip()
              surname = ""
      fn = args.name.strip()
      if not fn:
          if args.preferred_name:
              fn = args.preferred_name.strip()
              if surname:
                  fn = f"{fn} {surname}"
          else:
              fn = " ".join([p for p in (given, surname) if p]).strip()
  \<close>
  The four arguments are \<open>args.name\<close>, \<open>args.given\<close>, \<open>args.surname\<close> and
  \<open>args.preferred_name\<close>; the result is \<open>(fn, given, surname)\<close> as \<open>main\<close> hands them
  to \<open>build_vcard\<close>.
\<close>

definition main_structured_names :: "pystr \<Rightarrow> pystr \<Rightarrow> pystr \<Rightarrow> pystr \<times> pystr" where
  "main_structured_names args_name args_given args_surname =
     (let given = py_strip args_given;
          surname = py_strip args_surname
      in if \<not> (given \<noteq> [] \<or> surname \<noteq> [])
         then
           (let name_tokens = py_split_ws (py_strip args_name)
            in if length name_tokens \<ge> 2
               then (py_join [SPACE] (butlast name_tokens), last name_tokens)
               else (py_strip args_name, []))
         else (given, surname))"

definition main_resolve_names ::
  "pystr \<Rightarrow> pystr \<Rightarrow> pystr \<Rightarrow> pystr \<Rightarrow> pystr \<times> pystr \<times> pystr" where
  "main_resolve_names args_name args_given args_surname args_preferred_name =
     (let (given, surname) = main_structured_names args_name args_given args_surname;
          fn = py_strip args_name;
          fn' =
            (if fn = []
             then
               (if args_preferred_name \<noteq> []
                then
                  (let fn1 = py_strip args_preferred_name
                   in if surname \<noteq> [] then fn1 @ [SPACE] @ surname else fn1)
                else py_strip (py_join [SPACE] (filter (\<lambda>p. p \<noteq> []) [given, surname])))
             else fn)
      in (fn', given, surname))"

section \<open>Notions used to state and prove the properties\<close>

text \<open>What steps 1 to 3 of the escaper make of one character.\<close>

definition pre_token :: "codepoint \<Rightarrow> pystr" where
  "pre_token a = (if a = LF then [LF] else esc_token a)"

text \<open>A string the UTF-8 encoder accepts: one without a surrogate code point.\<close>

definition encodable :: "pystr \<Rightarrow> bool" where
  "encodable s = list_all (\<lambda>c. \<not> (55296 \<le> c \<and> c \<le> 57343)) s"

text \<open>The parts of \<open>fold_vcard_line\<close>, cut off the front one after the other.\<close>

fun chunks :: "nat \<Rightarrow> 'a list \<Rightarrow> 'a list list" where
  "chunks w xs = (if w = 0 \<or> xs = [] then [] else take w xs # chunks w (drop w xs))"

declare chunks.simps [simp del]

text \<open>The two line terminators of the record format.\<close>

definition terminator :: "pystr \<Rightarrow> bool" where
  "terminator t = (t = CRLF \<or> t = [LF])"

text \<open>
  The segments of a folded line: what stands between the terminators, the segments
  beyond the first without the space that marks a continuation.
\<close>

definition strip_continuation :: "pystr \<Rightarrow> pystr" where
  "strip_continuation seg = (if prefix [SPACE] seg then tl seg else seg)"

definition fold_segments :: "pystr \<Rightarrow> pystr \<Rightarrow> pystr list" where
  "fold_segments t out =
     (case py_split_ne t out of [] \<Rightarrow> [] | s # ss \<Rightarrow> s # map strip_continuation ss)"

text \<open>What \<open>fold_vcard_line\<close> returns at width 75.\<close>

definition folded :: "pystr \<Rightarrow> pystr \<Rightarrow> pystr" where
  "folded t L = (if length L \<le> 75 then L else py_join (t @ [SPACE]) (chunks 75 L))"

text \<open>A field that is emitted under a condition.\<close>

definition opt :: "bool \<Rightarrow> 'a list \<Rightarrow> 'a list" where
  "opt b xs = (if b then xs else [])"

text \<open>
  The fields of a record whose URIs pass the checks, with the conditions on
  \<open>github_url\<close> and \<open>x_social\<close> reduced to the one on \<open>github\<close> (lemma
  \<open>vcard_lines_accepted\<close> below).
\<close>

definition record_lines :: "vcard_args \<Rightarrow> pystr list" where
  "record_lines a =
     (let url = escape_vcard_value (Some (github_url_of (github a)))
      in [ascii ''BEGIN:VCARD'', ascii ''VERSION:3.0'',
          ascii ''FN:'' @ escape_vcard_value (Some (full_name a)),
          ascii ''N:'' @ escape_vcard_value (Some (surname a)) @ ascii '';''
            @ escape_vcard_value (Some (given a)) @ ascii '';;;'']
         @ opt (escape_vcard_value (phone a) \<noteq> [])
             [ascii ''TEL;TYPE=CELL:'' @ escape_vcard_value (phone a)]
         @ opt (escape_vcard_value (email a) \<noteq> [])
             [ascii ''EMAIL;TYPE=INTERNET:'' @ escape_vcard_value (email a)]
         @ opt (truthy (github a))
             [ascii ''URL:'' @ url, ascii ''X-SOCIALPROFILE;TYPE=github:'' @ url,
              ascii ''item1.URL;type=pref:'' @ url, ascii ''item1.X-ABLabel:GitHub'']
         @ opt (escape_vcard_value (city a) \<noteq> [] \<or> escape_vcard_value (country a) \<noteq> [])
             [ascii ''ADR:;;;'' @ escape_vcard_value (city a) @ ascii '';;''
                @ escape_vcard_value (country a)]
         @ opt (escape_vcard_value (note_text a) \<noteq> [])
             [ascii ''NOTE:'' @ escape_vcard_value (note_text a)]
         @ opt (truthy (avatar_uri a))
             [ascii ''PHOTO;VALUE=URI:'' @ escape_vcard_value (avatar_uri a)]
         @ opt (truthy (pgp_key_uri a))
             [ascii ''KEY;VALUE=URI:'' @ escape_vcard_value (pgp_key_uri a)]
         @ opt (truthy (pgp_fingerprint a))
             [ascii ''X-PGP-FP:'' @ escape_vcard_value (pgp_fingerprint a)]
         @ opt (preferred_name a \<noteq> [])
             [ascii ''NICKNAME:'' @ escape_vcard_value (Some (preferred_name a)),
              ascii ''X-PREFERRED-NAME:'' @ escape_vcard_value (Some (preferred_name a))]
         @ [ascii ''END:VCARD''])"

text \<open>The two checks of \<open>build_vcard\<close> that raise.\<close>

definition avatar_rejected :: "vcard_args \<Rightarrow> bool" where
  "avatar_rejected a =
     (truthy (avatar_uri a) \<and> \<not> is_http_url (str_or_empty (avatar_uri a)))"

definition pgp_key_rejected :: "vcard_args \<Rightarrow> bool" where
  "pgp_key_rejected a =
     (truthy (pgp_key_uri a) \<and> \<not> is_http_url (str_or_empty (pgp_key_uri a)))"

text \<open>A character the escaper leaves alone wherever it stands.\<close>

definition plain_char :: "codepoint \<Rightarrow> bool" where
  "plain_char c = (c \<noteq> BACKSLASH \<and> c \<noteq> SEMICOLON \<and> c \<noteq> COMMA \<and> c \<noteq> LF)"

text \<open>The physical lines that a logical line is folded into at width 75.\<close>

definition physical_lines :: "pystr \<Rightarrow> pystr list" where
  "physical_lines L =
     (if length L \<le> 75 then [L]
      else take 75 L # map ((#) SPACE) (chunks 75 (drop 75 L)))"

text \<open>
  The name of a field is what stands before its first colon or semicolon. The blocks
  of the emission order, numbered as the specification lists them.
\<close>

abbreviation COLON :: codepoint where "COLON \<equiv> 58"

definition field_name :: "pystr \<Rightarrow> pystr" where
  "field_name line = takeWhile (\<lambda>c. c \<noteq> COLON \<and> c \<noteq> SEMICOLON) line"

definition block_of :: "pystr \<Rightarrow> nat" where
  "block_of line =
     (let k = field_name line
      in if k = ascii ''BEGIN'' then 0
         else if k = ascii ''VERSION'' then 1
         else if k = ascii ''FN'' \<or> k = ascii ''N'' then 2
         else if k = ascii ''TEL'' then 3
         else if k = ascii ''EMAIL'' then 4
         else if k = ascii ''URL'' \<or> k = ascii ''X-SOCIALPROFILE''
                 \<or> k = ascii ''item1.URL'' \<or> k = ascii ''item1.X-ABLabel'' then 5
         else if k = ascii ''ADR'' then 6
         else if k = ascii ''NOTE'' then 7
         else if k = ascii ''PHOTO'' then 8
         else if k = ascii ''KEY'' then 9
         else if k = ascii ''X-PGP-FP'' then 10
         else if k = ascii ''NICKNAME'' \<or> k = ascii ''X-PREFERRED-NAME'' then 11
         else if k = ascii ''END'' then 12
         else 13)"

text \<open>
  The end-to-end example of the specification, as \<open>main\<close> calls \<open>build_vcard\<close>
  for it, and the same with a note that is longer than one line.
\<close>

definition alice :: vcard_args where
  "alice =
     \<lparr>full_name = ascii ''Alice Example'', given = ascii ''Alice'',
      surname = ascii ''Example'', preferred_name = [],
      email = Some (ascii ''alice@example.com''), phone = Some [],
      github = Some (ascii ''alice''), city = Some [], country = Some [],
      note_text = Some [], avatar_uri = Some [], pgp_key_uri = Some [],
      pgp_fingerprint = Some [], line_ending = CRLF\<rparr>"

definition alice_with_note :: vcard_args where
  "alice_with_note =
     alice\<lparr>note_text := Some (ascii
       ''Open for hire. Reach me by mail or through the profile linked above. Replies within two working days.'')\<rparr>"

section \<open>Properties of the Field Escaper\<close>

lemma py_replace_single:
  "py_replace [x] y s = subst_char x y s"
  by (induction s) (auto simp: py_replace_def subst_char_def)

lemma py_replace_newlines:
  "py_replace [LF] [BACKSLASH, LETTER_n] (py_replace CRLF [BACKSLASH, LETTER_n] s)
     = newlines_to_n s"
  by (induction s rule: newlines_to_n.induct) (simp_all add: py_replace_def)

lemma subst_char_newlines:
  "subst_char LF [BACKSLASH, LETTER_n] (py_replace CRLF [BACKSLASH, LETTER_n] s)
     = newlines_to_n s"
  using py_replace_newlines [of s] by (simp only: py_replace_single)

lemma escape_is_spec: "escape_vcard_value so = spec_escape so"
proof (cases so)
  case None
  then show ?thesis by (simp add: escape_vcard_value_def spec_escape_def)
next
  case (Some s)
  show ?thesis
  proof (cases "s = []")
    case True
    with Some show ?thesis
      by (simp add: escape_vcard_value_def spec_escape_def subst_char_def)
  next
    case False
    with Some show ?thesis
      by (simp add: escape_vcard_value_def spec_escape_def Let_def
          py_replace_single subst_char_newlines)
  qed
qed

lemma subst3_tokens:
  "subst_char COMMA [BACKSLASH, COMMA]
     (subst_char SEMICOLON [BACKSLASH, SEMICOLON]
        (subst_char BACKSLASH [BACKSLASH, BACKSLASH] s))
   = concat (map pre_token s)"
  by (induction s) (simp_all add: subst_char_def esc_token_def pre_token_def)

lemma newlines_to_n_plain:
  "a \<noteq> CR \<Longrightarrow> a \<noteq> LF \<Longrightarrow> newlines_to_n (a # r) = a # newlines_to_n r"
  by (cases r) simp_all

lemma newlines_to_n_LF:
  "newlines_to_n (LF # r) = [BACKSLASH, LETTER_n] @ newlines_to_n r"
  by (cases r) simp_all

lemma newlines_to_n_CR:
  "newlines_to_n (CR # r) =
     (case r of [] \<Rightarrow> [CR]
      | b # r' \<Rightarrow> if b = LF then [BACKSLASH, LETTER_n] @ newlines_to_n r'
                  else CR # newlines_to_n r)"
  by (cases r) simp_all

lemma newlines_to_n_pre_token:
  "a \<noteq> CR \<Longrightarrow> newlines_to_n (pre_token a @ r) = esc_token a @ newlines_to_n r"
  by (simp add: pre_token_def esc_token_def newlines_to_n_plain newlines_to_n_LF)

lemma pre_token_CR: "pre_token CR = [CR]"
  by (simp add: pre_token_def esc_token_def)

lemma pre_token_LF: "pre_token LF = [LF]"
  by (simp add: pre_token_def)

lemma pre_token_not_LF: "b \<noteq> LF \<Longrightarrow> \<exists>c r. pre_token b = c # r \<and> c \<noteq> LF"
  by (simp add: pre_token_def esc_token_def)

lemma newlines_to_n_tokens:
  "newlines_to_n (concat (map pre_token s)) = esc_scan s"
proof (induction s rule: esc_scan.induct)
  case 1
  then show ?case by simp
next
  case (2 a)
  then show ?case
    by (simp add: pre_token_def esc_token_def)
next
  case (3 a b cs)
  show ?case
  proof (cases "a = CR")
    case False
    with 3 show ?thesis
      using newlines_to_n_pre_token [of a "concat (map pre_token (b # cs))"] by simp
  next
    case True
    show ?thesis
    proof (cases "b = LF")
      case True
      with \<open>a = CR\<close> 3 show ?thesis
        by (simp add: pre_token_CR pre_token_LF)
    next
      case False
      then obtain c r where cr: "pre_token b = c # r" "c \<noteq> LF"
        using pre_token_not_LF by blast
      have "newlines_to_n (CR # concat (map pre_token (b # cs)))
              = CR # newlines_to_n (concat (map pre_token (b # cs)))"
        using cr by (simp add: newlines_to_n_CR)
      with False \<open>a = CR\<close> 3 show ?thesis
        by (simp add: pre_token_CR esc_token_def)
    qed
  qed
qed

lemma escape_is_scan: "escape_vcard_value (Some s) = esc_scan s"
  by (simp add: escape_is_spec spec_escape_def subst3_tokens newlines_to_n_tokens)

lemma well_escaped_plain:
  "a \<noteq> BACKSLASH \<Longrightarrow> a \<noteq> SEMICOLON \<Longrightarrow> a \<noteq> COMMA \<Longrightarrow>
   well_escaped (a # r) = well_escaped r"
  by (cases r) simp_all

lemma well_escaped_esc_token: "well_escaped (esc_token a @ r) = well_escaped r"
  by (simp add: esc_token_def well_escaped_plain)

lemma well_escaped_esc_scan: "well_escaped (esc_scan s)"
  by (induction s rule: esc_scan.induct)
     (simp_all add: well_escaped_esc_token well_escaped_esc_token [where r = "[]", simplified])

lemma LF_notin_esc_scan: "LF \<notin> set (esc_scan s)"
  by (induction s rule: esc_scan.induct) (simp_all add: esc_token_def)

lemma CR_in_esc_scan: "(CR \<in> set (esc_scan s)) = lone_cr s"
  by (induction s rule: esc_scan.induct) (auto simp: esc_token_def)

text \<open>
  C9. The Field Escaper is total and never raises (it has no error result). On absent
  or empty input it returns the empty string; on any input it returns what the four
  ordered steps of the specification give: backslash doubled, then semicolon and comma
  each given a backslash, then every CRLF or LF sequence turned into backslash-n.
\<close>

theorem escape_vcard_value_is_the_four_steps:
  "escape_vcard_value None = []
   \<and> escape_vcard_value (Some []) = []
   \<and> escape_vcard_value so = spec_escape so
   \<and> escape_vcard_value (Some s) =
       newlines_to_n
         (subst_char COMMA [BACKSLASH, COMMA]
           (subst_char SEMICOLON [BACKSLASH, SEMICOLON]
             (subst_char BACKSLASH [BACKSLASH, BACKSLASH] s)))"
  using escape_is_spec [of "Some s"]
  by (simp add: escape_is_spec) (simp add: spec_escape_def subst_char_def)

text \<open>
  C1, as stated, fails: a CR that no LF follows is not a CRLF or LF sequence, and the
  escaper hands it through. The input is the one-character string CR.
\<close>

theorem escape_lone_CR_counterexample:
  "\<not> (well_escaped (escape_vcard_value (Some [CR]))
      \<and> CR \<notin> set (escape_vcard_value (Some [CR]))
      \<and> LF \<notin> set (escape_vcard_value (Some [CR])))"
  by (simp add: escape_is_scan esc_token_def)

text \<open>
  C1, amended. For every input string \<open>s\<close>, every backslash, semicolon and comma of
  the escaped string is part of an escape sequence (backslash followed by backslash,
  semicolon, comma or n), and the escaped string contains no LF. It contains a CR
  exactly when \<open>s\<close> has a CR that is not directly followed by an LF.
\<close>

theorem escape_no_raw_delimiters:
  "well_escaped (escape_vcard_value (Some s))
   \<and> LF \<notin> set (escape_vcard_value (Some s))
   \<and> (CR \<in> set (escape_vcard_value (Some s))) = lone_cr s"
  by (simp add: escape_is_scan well_escaped_esc_scan LF_notin_esc_scan CR_in_esc_scan)

section \<open>Properties of the Size Validator\<close>

lemma utf8_length_encodable:
  "encodable s \<Longrightarrow> \<exists>n. utf8_length s = Inr n"
  by (induction s) (auto simp: encodable_def utf8_width_def)

lemma utf8_length_replicate_ascii:
  "c < 128 \<Longrightarrow> utf8_length (replicate k c) = Inr k"
  by (induction k) (simp_all add: utf8_width_def)

lemma approx_size_of_length:
  "utf8_length s = Inr n \<Longrightarrow>
   approx_size_warn_and_check s =
     ((if 2000 < n then [SizeWarning n] else []),
      (if 2950 < n then Inl (PayloadTooLargeError n) else Inr ()))"
  by (simp add: approx_size_warn_and_check_def WARN_QR_BYTES_def MAX_QR_BYTES_def)

text \<open>
  C3, as stated, fails: a string with a surrogate code point has no UTF-8 encoding, and
  \<open>s.encode("utf-8")\<close> raises before any threshold is looked at. No size is computed
  and the error is not the one of an oversized payload. The input is the
  one-character string of code point \<open>D800\<close>.
\<close>

theorem size_validator_surrogate_counterexample:
  "utf8_length [55296] = Inl UnicodeEncodeError
   \<and> approx_size_warn_and_check [55296] = ([], Inl UnicodeEncodeError)"
  by (simp add: approx_size_warn_and_check_def utf8_width_def)

text \<open>
  C3, amended. For every payload string \<open>s\<close> without a surrogate code point, the Size
  Validator computes the UTF-8 byte length \<open>n\<close> of \<open>s\<close>; it prints a warning exactly
  when \<open>n\<close> exceeds 2000, and fails with \<open>PayloadTooLargeError\<close> carrying \<open>n\<close>
  exactly when \<open>n\<close> exceeds 2950, returning without error otherwise. It returns no
  string, so the payload is not altered. A payload of 3000 bytes fails with measured
  size 3000; a payload of 2500 bytes is warned about and passes.
\<close>

theorem size_validator_thresholds:
  "encodable s \<Longrightarrow>
   (\<exists>n. utf8_length s = Inr n
      \<and> approx_size_warn_and_check s =
          ((if 2000 < n then [SizeWarning n] else []),
           (if 2950 < n then Inl (PayloadTooLargeError n) else Inr ())))
   \<and> approx_size_warn_and_check (replicate 3000 (of_char CHR ''a'')) =
       ([SizeWarning 3000], Inl (PayloadTooLargeError 3000))
   \<and> approx_size_warn_and_check (replicate 2500 (of_char CHR ''a'')) =
       ([SizeWarning 2500], Inr ())"
proof (intro conjI)
  assume "encodable s"
  then obtain n where n: "utf8_length s = Inr n"
    using utf8_length_encodable by blast
  then show "\<exists>n. utf8_length s = Inr n
           \<and> approx_size_warn_and_check s =
               ((if 2000 < n then [SizeWarning n] else []),
                (if 2950 < n then Inl (PayloadTooLargeError n) else Inr ()))"
    using approx_size_of_length by blast
next
  show "approx_size_warn_and_check (replicate 3000 (of_char CHR ''a'')) =
           ([SizeWarning 3000], Inl (PayloadTooLargeError 3000))"
    using approx_size_of_length [OF utf8_length_replicate_ascii [of "of_char CHR ''a''" 3000]]
    by simp
next
  show "approx_size_warn_and_check (replicate 2500 (of_char CHR ''a'')) =
           ([SizeWarning 2500], Inr ())"
    using approx_size_of_length [OF utf8_length_replicate_ascii [of "of_char CHR ''a''" 2500]]
    by simp
qed

theorem size_validator_thresholds_witness:
  "encodable (ascii ''BEGIN:VCARD'')
   \<and> utf8_length (ascii ''BEGIN:VCARD'') = Inr 11
   \<and> approx_size_warn_and_check (ascii ''BEGIN:VCARD'') = ([], Inr ())"
  using size_validator_thresholds [of "ascii ''BEGIN:VCARD''"]
  by (simp add: encodable_def ascii_def utf8_width_def)

section \<open>Properties of fingerprint normalisation\<close>

lemma is_hex_upper: "is_hex c \<Longrightarrow> is_upper_hex (upper_ascii c)"
  by (auto simp: is_hex_def is_upper_hex_def upper_ascii_def)

lemma normalized_upper_hex: "list_all is_upper_hex (map upper_ascii (filter is_hex fp))"
  by (induction fp) (simp_all add: is_hex_upper)

text \<open>
  C4. For every non-empty fingerprint string, \<open>normalize_fingerprint\<close> drops the
  characters that are not hexadecimal digits and uppercases the rest. A result of
  length 8, 16 or 40 is returned; any other length, the empty result of an input
  without a hexadecimal digit included, fails with \<open>InvalidFingerprintError\<close>. The
  forty digits with colons are accepted and returned without the colons; \<open>"zz"\<close> and
  \<open>"1234567"\<close> fail.
\<close>

theorem normalize_fingerprint_lengths:
  "fp \<noteq> [] \<Longrightarrow>
   normalize_fingerprint fp =
     (let s = map upper_ascii (filter is_hex fp)
      in if length s = 8 \<or> length s = 16 \<or> length s = 40 then Inr s
         else Inl (InvalidFingerprintError
                    (if s = [] then InvalidCharacters else WrongLength)))
   \<and> normalize_fingerprint
         (ascii ''AB:CD:EF:01:23:45:67:89:AB:CD:EF:01:23:45:67:89:AB:CD:EF:01'')
       = Inr (ascii ''ABCDEF0123456789ABCDEF0123456789ABCDEF01'')
   \<and> length (ascii ''ABCDEF0123456789ABCDEF0123456789ABCDEF01'') = 40
   \<and> normalize_fingerprint (ascii ''zz'') = Inl (InvalidFingerprintError InvalidCharacters)
   \<and> normalize_fingerprint (ascii ''1234567'') = Inl (InvalidFingerprintError WrongLength)"
proof (intro conjI)
  assume "fp \<noteq> []"
  then show "normalize_fingerprint fp =
     (let s = map upper_ascii (filter is_hex fp)
      in if length s = 8 \<or> length s = 16 \<or> length s = 40 then Inr s
         else Inl (InvalidFingerprintError
                    (if s = [] then InvalidCharacters else WrongLength)))"
    using normalized_upper_hex [of fp]
    by (auto simp: normalize_fingerprint_def Let_def)
qed (simp_all add: normalize_fingerprint_def ascii_def is_hex_def is_upper_hex_def
       upper_ascii_def)

theorem normalize_fingerprint_lengths_witness:
  "ascii ''ab:cd-12 34'' \<noteq> []
   \<and> normalize_fingerprint (ascii ''ab:cd-12 34'') = Inr (ascii ''ABCD1234'')"
  using normalize_fingerprint_lengths [of "ascii ''ab:cd-12 34''"]
  by (simp add: ascii_def is_hex_def upper_ascii_def)

section \<open>Splitting, joining and cutting strings\<close>

lemma py_contains_sublist: "py_contains sub s = sublist sub s"
  by (induction s) (auto simp: sublist_Cons_right)

lemma py_contains_take: "py_contains sub (take n s) \<Longrightarrow> py_contains sub s"
  unfolding py_contains_sublist
  by (meson sublist_order.order_trans sublist_take)

lemma py_contains_drop: "py_contains sub (drop n s) \<Longrightarrow> py_contains sub s"
  unfolding py_contains_sublist
  by (meson sublist_order.order_trans sublist_drop)

lemma py_contains_slice: "py_contains sub (slice s i j) \<Longrightarrow> py_contains sub s"
  unfolding slice_def using py_contains_take py_contains_drop by blast

lemma LF_free_no_terminator:
  "terminator t \<Longrightarrow> LF \<notin> set s \<Longrightarrow> \<not> py_contains t s"
  by (induction s) (auto simp: terminator_def dest!: set_mono_prefix)

lemma no_prefix_before_terminator:
  "terminator t \<Longrightarrow> \<not> py_contains t (c # x) \<Longrightarrow> \<not> prefix t (c # x @ t @ r)"
  by (cases x) (auto simp: terminator_def)

lemma py_split_ne_terminated:
  "terminator t \<Longrightarrow> \<not> py_contains t x \<Longrightarrow>
   py_split_ne t (x @ t @ r) = x # py_split_ne t r"
proof (induction x)
  case Nil
  then show ?case by (auto simp: terminator_def)
next
  case (Cons c x)
  then have np: "\<not> prefix t (c # x @ t @ r)"
    using no_prefix_before_terminator by blast
  from Cons have "\<not> py_contains t x" by simp
  with Cons have "py_split_ne t (x @ t @ r) = x # py_split_ne t r" by simp
  with np show ?case by simp
qed

lemma py_split_ne_no_terminator:
  "\<not> py_contains t x \<Longrightarrow> py_split_ne t x = [x]"
  by (induction x) auto

lemma py_split_join:
  "terminator t \<Longrightarrow> xs \<noteq> [] \<Longrightarrow> \<forall>x\<in>set xs. \<not> py_contains t x \<Longrightarrow>
   py_split_ne t (py_join t xs) = xs"
  by (induction t xs rule: py_join.induct)
     (simp_all add: py_split_ne_no_terminator py_split_ne_terminated)

lemma py_join_snoc_terminator:
  "xs \<noteq> [] \<Longrightarrow> py_join t xs @ t = py_join t (xs @ [[]])"
  by (induction t xs rule: py_join.induct) simp_all

lemma py_contains_Nil_terminator: "terminator t \<Longrightarrow> \<not> py_contains t []"
  by (auto simp: terminator_def)

lemma py_split_join_terminated:
  assumes "terminator t" "xs \<noteq> []" "\<forall>x\<in>set xs. \<not> py_contains t x"
  shows "py_split_ne t (py_join t xs @ t) = xs @ [[]]"
proof -
  have "\<forall>x\<in>set (xs @ [[]]). \<not> py_contains t x"
    using assms py_contains_Nil_terminator by auto
  then show ?thesis
    using assms py_split_join [of t "xs @ [[]]"] by (simp add: py_join_snoc_terminator)
qed

lemma no_prefix_sep:
  "terminator t \<Longrightarrow> \<not> py_contains t (c # x) \<Longrightarrow> \<not> prefix (t @ [SPACE]) (c # x @ t @ SPACE # r)"
  using no_prefix_before_terminator [of t c x "SPACE # r"]
  by (metis append_prefixD)

lemma py_replace_ne_terminated:
  "terminator t \<Longrightarrow> \<not> py_contains t x \<Longrightarrow>
   py_replace_ne (t @ [SPACE]) [] (x @ t @ SPACE # r) = x @ py_replace_ne (t @ [SPACE]) [] r"
proof (induction x)
  case Nil
  then show ?case by (auto simp: terminator_def)
next
  case (Cons c x)
  then have np: "\<not> prefix (t @ [SPACE]) (c # x @ t @ SPACE # r)"
    using no_prefix_sep by blast
  from Cons have "\<not> py_contains t x" by simp
  with Cons have "py_replace_ne (t @ [SPACE]) [] (x @ t @ SPACE # r) = x @ py_replace_ne (t @ [SPACE]) [] r" by simp
  with np show ?case by simp
qed

lemma py_replace_ne_no_terminator:
  "\<not> py_contains t x \<Longrightarrow> py_replace_ne (t @ [SPACE]) new x = x"
proof (induction x)
  case Nil
  then show ?case by simp
next
  case (Cons c x)
  then have "\<not> prefix t (c # x)" by simp
  then have "\<not> prefix (t @ [SPACE]) (c # x)"
    using append_prefixD by blast
  with Cons show ?case by simp
qed

lemma py_replace_join:
  "terminator t \<Longrightarrow> \<forall>x\<in>set xs. \<not> py_contains t x \<Longrightarrow>
   py_replace (t @ [SPACE]) [] (py_join (t @ [SPACE]) xs) = concat xs"
  by (induction "t @ [SPACE]" xs rule: py_join.induct)
     (simp_all add: py_replace_def py_replace_ne_no_terminator py_replace_ne_terminated)

lemma range_count_step:
  "0 < w \<Longrightarrow> 0 < n \<Longrightarrow> (n + w - 1) div w = Suc ((n - w + w - 1) div w)"
proof (cases "n \<le> w")
  case True
  assume "0 < w" "0 < n"
  with True have "(n + w - 1) div w = 1"
    by (intro div_nat_eqI) auto
  moreover from True \<open>0 < w\<close> have "(n - w + w - 1) div w = 0" by simp
  ultimately show ?thesis by simp
next
  case False
  assume "0 < w"
  then have gen: "(k + w) div w = Suc (k div w)" for k by (simp add: div_add_self2)
  from False have "n + w - 1 = (n - w + w - 1) + w" by simp
  then have "(n + w - 1) div w = ((n - w + w - 1) + w) div w" by simp
  also have "\<dots> = Suc ((n - w + w - 1) div w)"
    by (rule gen)
  finally show ?thesis .
qed

lemma slice_shift: "slice xs (w + i) (w + i + k) = slice (drop w xs) i (i + k)"
  by (simp add: slice_def add.commute)

lemma parts_are_chunks:
  "0 < w \<Longrightarrow>
   map (\<lambda>i. slice line i (i + w)) (map (\<lambda>k. k * w) [0 ..< (length line + w - 1) div w])
     = chunks w line"
proof (induction w line rule: chunks.induct)
  case (1 w xs)
  show ?case
  proof (cases "xs = []")
    case True
    with 1 show ?thesis by (simp add: chunks.simps)
  next
    case False
    let ?m = "(length (drop w xs) + w - 1) div w"
    from False 1 have m: "(length xs + w - 1) div w = Suc ?m"
      using range_count_step [of w "length xs"] by simp
    have upt: "[0 ..< Suc ?m] = 0 # map Suc [0 ..< ?m]"
      by (simp add: upt_conv_Cons map_Suc_upt del: upt_Suc)
    have ih: "map (\<lambda>i. slice (drop w xs) i (i + w)) (map (\<lambda>k. k * w) [0 ..< ?m])
                = chunks w (drop w xs)"
      using 1 False by simp
    have "map (\<lambda>i. slice xs i (i + w)) (map (\<lambda>k. k * w) [0 ..< Suc ?m])
            = slice xs 0 w # map (\<lambda>k. slice xs (w + k * w) (w + k * w + w)) [0 ..< ?m]"
      unfolding upt by (simp add: comp_def)
    also have "\<dots> = take w xs # map (\<lambda>k. slice (drop w xs) (k * w) (k * w + w)) [0 ..< ?m]"
      by (simp only: slice_shift) (simp add: slice_def)
    also have "\<dots> = take w xs # chunks w (drop w xs)"
      using ih by (simp add: comp_def)
    also have "\<dots> = chunks w xs"
      using False 1 by (simp add: chunks.simps [of w xs])
    finally show ?thesis using m by simp
  qed
qed

lemma fold_parts_chunks:
  "0 < w \<Longrightarrow> fold_parts line w = Inr (chunks (nat w) line)"
  using parts_are_chunks [of "nat w" line]
  by (simp add: fold_parts_def py_range_def)

lemma concat_chunks: "0 < w \<Longrightarrow> concat (chunks w xs) = xs"
  by (induction w xs rule: chunks.induct) (simp add: chunks.simps)

lemma chunks_length: "c \<in> set (chunks w xs) \<Longrightarrow> length c \<le> w \<and> c \<noteq> []"
proof (induction w xs rule: chunks.induct)
  case (1 w xs)
  then show ?case
    by (cases "w = 0 \<or> xs = []") (auto simp: chunks.simps [of w xs])
qed

lemma chunks_slices: "c \<in> set (chunks w xs) \<Longrightarrow> \<exists>i j. c = slice xs i j"
proof (induction w xs rule: chunks.induct)
  case (1 w xs)
  show ?case
  proof (cases "w = 0 \<or> xs = []")
    case True
    with 1 show ?thesis by (simp add: chunks.simps [of w xs])
  next
    case False
    with 1(2) have "c = take w xs \<or> c \<in> set (chunks w (drop w xs))"
      by (simp add: chunks.simps [of w xs])
    then show ?thesis
    proof
      assume "c = take w xs"
      then have "c = slice xs 0 w" by (simp add: slice_def)
      then show ?thesis by blast
    next
      assume "c \<in> set (chunks w (drop w xs))"
      with 1(1) False obtain i j where "c = slice (drop w xs) i j" by blast
      then have "c = slice xs (w + i) (w + j)" by (simp add: slice_def add.commute)
      then show ?thesis by blast
    qed
  qed
qed

lemma chunks_no_terminator:
  "\<not> py_contains t xs \<Longrightarrow> c \<in> set (chunks w xs) \<Longrightarrow> \<not> py_contains t c"
  using chunks_slices py_contains_slice by blast

lemma chunks_first:
  "0 < w \<Longrightarrow> xs \<noteq> [] \<Longrightarrow> chunks w xs = take w xs # chunks w (drop w xs)"
  by (simp add: chunks.simps [of w xs])

lemma py_join_Cons_head: "x # py_join t (a # cs) = py_join t ((x # a) # cs)"
  by (cases cs) simp_all

lemma py_join_continuation:
  "py_join (t @ [SPACE]) (c # cs) = py_join t (c # map ((#) SPACE) cs)"
  by (induction cs arbitrary: c) (simp_all add: py_join_Cons_head)

lemma fold_vcard_line_short:
  "int (length L) \<le> w \<Longrightarrow> fold_vcard_line L w t = Inr L"
  by (simp add: fold_vcard_line_def)

lemma fold_vcard_line_long:
  "0 < w \<Longrightarrow> w < int (length L) \<Longrightarrow>
   fold_vcard_line L w t = Inr (py_join (t @ [SPACE]) (chunks (nat w) L))"
  by (simp add: fold_vcard_line_def fold_parts_chunks)

lemma continuation_no_terminator:
  "terminator t \<Longrightarrow> \<not> py_contains t c \<Longrightarrow> \<not> py_contains t (SPACE # c)"
  by (auto simp: terminator_def)

lemma strip_continuation_Cons: "strip_continuation (SPACE # c) = c"
  by (simp add: strip_continuation_def)

lemma fold_segments_long:
  assumes "terminator t" "\<not> py_contains t L" "0 < w" "L \<noteq> []"
  shows "fold_segments t (py_join (t @ [SPACE]) (chunks w L)) = chunks w L"
proof -
  let ?c = "take w L" and ?cs = "chunks w (drop w L)"
  have ch: "chunks w L = ?c # ?cs"
    using assms by (simp add: chunks_first)
  have free: "\<forall>x\<in>set (?c # map ((#) SPACE) ?cs). \<not> py_contains t x"
  proof
    fix x assume "x \<in> set (?c # map ((#) SPACE) ?cs)"
    then consider "x = ?c" | c where "c \<in> set ?cs" "x = SPACE # c" by auto
    then show "\<not> py_contains t x"
    proof cases
      case 1
      then show ?thesis using assms(2) py_contains_take by blast
    next
      case 2
      then have "c \<in> set (chunks w L)" using ch by simp
      then have "\<not> py_contains t c" using assms(2) chunks_no_terminator by blast
      with 2 assms(1) show ?thesis using continuation_no_terminator by blast
    qed
  qed
  have "py_split_ne t (py_join (t @ [SPACE]) (chunks w L)) = ?c # map ((#) SPACE) ?cs"
    unfolding ch py_join_continuation
    using assms(1) free by (intro py_split_join) auto
  then show ?thesis
    by (simp add: fold_segments_def strip_continuation_Cons ch comp_def)
qed

section \<open>Properties of the Line Folder\<close>

text \<open>
  C2. For every logical line \<open>L\<close> that contains no terminator, every width
  \<open>w \<ge> 1\<close> and terminator \<open>t\<close> (CRLF or LF): the folder returns a string; if
  \<open>len(L) \<le> w\<close> it is \<open>L\<close> unchanged; every segment of the result, the
  continuation space taken off the segments beyond the first, has length at most
  \<open>w\<close>, and folding such a segment again returns it unchanged, as does folding any
  segment, continuation space included, that is no longer than \<open>w\<close>; replacing
  every occurrence of \<open>t\<close> followed by a space by the empty string gives \<open>L\<close>
  back.
\<close>

theorem fold_vcard_line_segments:
  assumes "terminator t" "1 \<le> w" "\<not> py_contains t L"
  shows "\<exists>out. fold_vcard_line L w t = Inr out
           \<and> (int (length L) \<le> w \<longrightarrow> out = L)
           \<and> (\<forall>seg\<in>set (fold_segments t out).
                 int (length seg) \<le> w \<and> fold_vcard_line seg w t = Inr seg)
           \<and> (\<forall>seg\<in>set (py_split_ne t out).
                 int (length seg) \<le> w \<longrightarrow> fold_vcard_line seg w t = Inr seg)
           \<and> py_replace (t @ [SPACE]) [] out = L"
proof (cases "int (length L) \<le> w")
  case True
  have "fold_segments t L = [L]"
    using assms(3) by (simp add: fold_segments_def py_split_ne_no_terminator)
  moreover have "py_replace (t @ [SPACE]) [] L = L"
    using assms(3) by (simp add: py_replace_def py_replace_ne_no_terminator)
  ultimately show ?thesis
    using True by (simp add: fold_vcard_line_short)
next
  case False
  let ?w = "nat w"
  from False assms(2) have long: "w < int (length L)" and w: "0 < w" "0 < ?w" and ne: "L \<noteq> []"
    by auto
  let ?out = "py_join (t @ [SPACE]) (chunks ?w L)"
  have out: "fold_vcard_line L w t = Inr ?out"
    using w long by (simp add: fold_vcard_line_long)
  have segs: "fold_segments t ?out = chunks ?w L"
    using assms ne w by (simp add: fold_segments_long)
  have short: "int (length seg) \<le> w \<and> fold_vcard_line seg w t = Inr seg"
    if "seg \<in> set (chunks ?w L)" for seg
  proof -
    from that have "length seg \<le> ?w" using chunks_length by blast
    then have "int (length seg) \<le> w" using w by simp
    then show ?thesis by (simp add: fold_vcard_line_short)
  qed
  have "\<forall>x\<in>set (chunks ?w L). \<not> py_contains t x"
    using assms(3) chunks_no_terminator by blast
  then have "py_replace (t @ [SPACE]) [] ?out = concat (chunks ?w L)"
    using assms(1) by (simp add: py_replace_join)
  then have recover: "py_replace (t @ [SPACE]) [] ?out = L"
    using w by (simp add: concat_chunks)
  show ?thesis
    using out segs short recover False by (simp add: fold_vcard_line_short)
qed

theorem fold_vcard_line_segments_witness:
  "terminator CRLF \<and> (1::int) \<le> 4 \<and> \<not> py_contains CRLF (ascii ''NOTE:hello'')
   \<and> fold_vcard_line (ascii ''NOTE:hello'') 4 CRLF
        = Inr (ascii ''NOTE'' @ CRLF @ ascii '' :hel'' @ CRLF @ ascii '' lo'')
   \<and> fold_segments CRLF (ascii ''NOTE'' @ CRLF @ ascii '' :hel'' @ CRLF @ ascii '' lo'')
        = [ascii ''NOTE'', ascii '':hel'', ascii ''lo'']
   \<and> py_replace (CRLF @ [SPACE]) [] (ascii ''NOTE'' @ CRLF @ ascii '' :hel'' @ CRLF @ ascii '' lo'')
        = ascii ''NOTE:hello''"
  using fold_vcard_line_segments [of CRLF 4 "ascii ''NOTE:hello''"]
  by (simp add: terminator_def ascii_def fold_vcard_line_def fold_parts_def py_range_def
        slice_def fold_segments_def strip_continuation_def py_replace_def upt_rec)

section \<open>Properties of the Record Builder\<close>

lemma github_url_of_nonempty: "truthy gh \<Longrightarrow> github_url_of gh \<noteq> []"
  by (simp add: github_url_of_def truthy_def)

lemma github_url_of_empty: "\<not> truthy gh \<Longrightarrow> github_url_of gh = []"
  by (simp add: github_url_of_def)

lemma ascii_Cons_nonempty: "ascii (c # cs) \<noteq> []"
  by (simp add: ascii_def)

lemma vcard_lines_avatar_rejected:
  "avatar_rejected a \<Longrightarrow> vcard_lines a = Inl (InvalidURIError Avatar)"
  unfolding vcard_lines_def Let_def avatar_rejected_def [symmetric]
  by (simp split del: if_split)

lemma vcard_lines_pgp_key_rejected:
  "\<not> avatar_rejected a \<Longrightarrow> pgp_key_rejected a \<Longrightarrow>
   vcard_lines a = Inl (InvalidURIError PgpKey)"
  unfolding vcard_lines_def Let_def avatar_rejected_def [symmetric]
    pgp_key_rejected_def [symmetric]
  by (simp split del: if_split)

lemma vcard_lines_accepted:
  assumes "\<not> avatar_rejected a" "\<not> pgp_key_rejected a"
  shows "vcard_lines a = Inr (record_lines a)"
proof (cases "truthy (github a)")
  case True
  with assms show ?thesis
    unfolding vcard_lines_def record_lines_def Let_def opt_def
      avatar_rejected_def [symmetric] pgp_key_rejected_def [symmetric]
    by (simp add: github_url_of_nonempty ascii_Cons_nonempty split del: if_split)
next
  case False
  with assms show ?thesis
    unfolding vcard_lines_def record_lines_def Let_def opt_def
      avatar_rejected_def [symmetric] pgp_key_rejected_def [symmetric]
    by (simp add: github_url_of_empty split del: if_split)
qed

lemma vcard_lines_shape:
  "vcard_lines a =
     (if avatar_rejected a then Inl (InvalidURIError Avatar)
      else if pgp_key_rejected a then Inl (InvalidURIError PgpKey)
      else Inr (record_lines a))"
  using vcard_lines_avatar_rejected vcard_lines_pgp_key_rejected vcard_lines_accepted
  by simp

lemma vcard_lines_Inr:
  "vcard_lines a = Inr lines \<Longrightarrow> lines = record_lines a"
  by (simp add: vcard_lines_shape split: if_splits)

lemma ball_opt: "(\<forall>x\<in>set (opt b xs). P x) = (b \<longrightarrow> (\<forall>x\<in>set xs. P x))"
  by (auto simp: opt_def)

lemma map_opt: "map f (opt b xs) = opt b (map f xs)"
  by (simp add: opt_def)

lemma escape_option: "escape_vcard_value so = esc_scan (str_or_empty so)"
proof (cases so)
  case None
  then show ?thesis by (simp add: escape_vcard_value_def str_or_empty_def)
next
  case (Some s)
  then show ?thesis by (simp add: escape_is_scan str_or_empty_def)
qed

lemma LF_notin_escape: "LF \<notin> set (escape_vcard_value so)"
  by (simp add: escape_option LF_notin_esc_scan)

lemma record_lines_LF_free: "\<forall>l\<in>set (record_lines a). LF \<notin> set l"
  by (simp add: record_lines_def Let_def ball_Un ball_opt LF_notin_escape ascii_def)

lemma record_lines_not_Nil: "record_lines a \<noteq> []"
  by (simp add: record_lines_def Let_def)

lemma fold_vcard_line_75: "fold_vcard_line L 75 t = Inr (folded t L)"
  using fold_vcard_line_short [of L 75 t] fold_vcard_line_long [of 75 L t]
  by (cases "length L \<le> 75") (simp_all add: folded_def)

lemma map_result_fold_75:
  "map_result (\<lambda>L. fold_vcard_line L 75 t) ls = Inr (map (folded t) ls)"
  by (induction ls) (simp_all add: fold_vcard_line_75)

lemma build_vcard_of_lines:
  assumes "vcard_lines a = Inr lines" "terminator (line_ending a)"
  shows "build_vcard a =
           Inr (py_join (line_ending a) (map (folded (line_ending a)) lines) @ line_ending a)"
proof -
  let ?t = "line_ending a"
  have lines: "lines = record_lines a"
    using assms(1) by (rule vcard_lines_Inr)
  then have "\<forall>l\<in>set lines. \<not> py_contains ?t l"
    using assms(2) record_lines_LF_free LF_free_no_terminator by blast
  then have "py_split_ne ?t (py_join ?t lines) = lines"
    using assms(2) lines record_lines_not_Nil py_split_join by blast
  moreover have "?t \<noteq> []" using assms(2) by (auto simp: terminator_def)
  ultimately show ?thesis
    using assms(1) by (simp add: build_vcard_def py_split_def map_result_fold_75)
qed

lemma build_vcard_succeeds:
  assumes "vcard_lines a = Inr lines" "line_ending a \<noteq> []"
  shows "\<exists>out. build_vcard a = Inr out"
  using assms by (simp add: build_vcard_def py_split_def map_result_fold_75)

lemma build_vcard_error:
  "vcard_lines a = Inl e \<Longrightarrow> build_vcard a = Inl e"
  by (simp add: build_vcard_def)

lemma build_vcard_lines_exist:
  "build_vcard a = Inr out \<Longrightarrow> \<exists>lines. vcard_lines a = Inr lines"
  by (cases "vcard_lines a") (simp_all add: build_vcard_def)

lemma esc_scan_plain: "list_all plain_char s \<Longrightarrow> esc_scan s = s"
  by (induction s rule: esc_scan.induct) (simp_all add: plain_char_def esc_token_def)

lemma escape_plain: "list_all plain_char s \<Longrightarrow> escape_vcard_value (Some s) = s"
  by (simp add: escape_is_scan esc_scan_plain)

lemma opt_True: "opt True xs = xs"
  by (simp add: opt_def)

lemma mem_opt: "x \<in> set (opt b xs) = (b \<and> x \<in> set xs)"
  by (simp add: opt_def)

lemma ascii_append: "ascii (xs @ ys) = ascii xs @ ascii ys"
  by (simp add: ascii_def)

lemma alice_lines:
  "vcard_lines alice = Inr
     [ascii ''BEGIN:VCARD'', ascii ''VERSION:3.0'', ascii ''FN:Alice Example'',
      ascii ''N:Example;Alice;;;'', ascii ''EMAIL;TYPE=INTERNET:alice@example.com'',
      ascii ''URL:https://github.com/alice'',
      ascii ''X-SOCIALPROFILE;TYPE=github:https://github.com/alice'',
      ascii ''item1.URL;type=pref:https://github.com/alice'',
      ascii ''item1.X-ABLabel:GitHub'', ascii ''END:VCARD'']"
proof -
  have "\<not> avatar_rejected alice" "\<not> pgp_key_rejected alice"
    by (simp_all add: avatar_rejected_def pgp_key_rejected_def alice_def truthy_def
          str_or_empty_def)
  then have "vcard_lines alice = Inr (record_lines alice)"
    by (rule vcard_lines_accepted)
  moreover have "github_url_of (github alice) = ascii ''https://github.com/alice''"
    by (simp add: github_url_of_def alice_def truthy_def str_or_empty_def is_http_url_def
          ascii_def)
  ultimately show ?thesis
    by (simp add: record_lines_def Let_def alice_def truthy_def str_or_empty_def opt_def
          escape_option esc_token_def ascii_def)
qed

lemma github_url_of_truthy:
  "truthy gh \<Longrightarrow>
   github_url_of gh =
     (if is_http_url (str_or_empty gh) then str_or_empty gh
      else ascii ''https://github.com/'' @ str_or_empty gh)"
  by (simp add: github_url_of_def)

lemma record_lines_link_fields:
  assumes "truthy (github a)"
  shows "sublist
           [ascii ''URL:'' @ escape_vcard_value (Some (github_url_of (github a))),
            ascii ''X-SOCIALPROFILE;TYPE=github:''
              @ escape_vcard_value (Some (github_url_of (github a))),
            ascii ''item1.URL;type=pref:''
              @ escape_vcard_value (Some (github_url_of (github a))),
            ascii ''item1.X-ABLabel:GitHub'']
           (record_lines a)"
proof -
  let ?e = "escape_vcard_value (Some (github_url_of (github a)))"
  let ?links = "[ascii ''URL:'' @ ?e, ascii ''X-SOCIALPROFILE;TYPE=github:'' @ ?e,
                 ascii ''item1.URL;type=pref:'' @ ?e, ascii ''item1.X-ABLabel:GitHub'']"
  obtain ps ss where "record_lines a = ps @ ?links @ ss"
    using assms by (simp add: record_lines_def Let_def opt_True) (metis append.assoc append_Cons)
  then show ?thesis
    by (simp add: sublist_def) blast
qed

lemma alice_output:
  "build_vcard alice = Inr
     (ascii ''BEGIN:VCARD'' @ CRLF @ ascii ''VERSION:3.0'' @ CRLF
      @ ascii ''FN:Alice Example'' @ CRLF @ ascii ''N:Example;Alice;;;'' @ CRLF
      @ ascii ''EMAIL;TYPE=INTERNET:alice@example.com'' @ CRLF
      @ ascii ''URL:https://github.com/alice'' @ CRLF
      @ ascii ''X-SOCIALPROFILE;TYPE=github:https://github.com/alice'' @ CRLF
      @ ascii ''item1.URL;type=pref:https://github.com/alice'' @ CRLF
      @ ascii ''item1.X-ABLabel:GitHub'' @ CRLF @ ascii ''END:VCARD'' @ CRLF)"
proof -
  have "terminator (line_ending alice)"
    by (simp add: terminator_def alice_def)
  from build_vcard_of_lines [OF alice_lines this] show ?thesis
    by (simp add: alice_def folded_def ascii_def)
qed

text \<open>
  C8. For every non-empty profile handle on which the builder succeeds: the URL is
  the handle itself if it is an http(s) URL, and \<open>https://github.com/\<close> followed by
  the handle otherwise; the record holds, one after the other, a URL field with that
  URL, the social-profile field, and the labelled link pair \<open>item1.URL\<close>,
  \<open>item1.X-ABLabel\<close> that refers to it. The URL stands in these fields as a field
  value, that is escaped; a URL without backslash, semicolon, comma and LF stands there
  letter for letter. For name "Alice Example", email alice@example.com and handle
  alice the output is the one given, with the URL field
  \<open>URL:https://github.com/alice\<close>.
\<close>

theorem profile_handle_link_fields:
  "truthy (github a) \<Longrightarrow> vcard_lines a = Inr lines \<Longrightarrow>
   (let g = str_or_empty (github a);
        url = (if is_http_url g then g else ascii ''https://github.com/'' @ g);
        e = escape_vcard_value (Some url)
    in sublist
         [ascii ''URL:'' @ e, ascii ''X-SOCIALPROFILE;TYPE=github:'' @ e,
          ascii ''item1.URL;type=pref:'' @ e, ascii ''item1.X-ABLabel:GitHub'']
         lines
       \<and> (list_all plain_char url \<longrightarrow> e = url))
   \<and> build_vcard alice = Inr
       (ascii ''BEGIN:VCARD'' @ CRLF @ ascii ''VERSION:3.0'' @ CRLF
        @ ascii ''FN:Alice Example'' @ CRLF @ ascii ''N:Example;Alice;;;'' @ CRLF
        @ ascii ''EMAIL;TYPE=INTERNET:alice@example.com'' @ CRLF
        @ ascii ''URL:https://github.com/alice'' @ CRLF
        @ ascii ''X-SOCIALPROFILE;TYPE=github:https://github.com/alice'' @ CRLF
        @ ascii ''item1.URL;type=pref:https://github.com/alice'' @ CRLF
        @ ascii ''item1.X-ABLabel:GitHub'' @ CRLF @ ascii ''END:VCARD'' @ CRLF)"
proof -
  assume gh: "truthy (github a)" and lines: "vcard_lines a = Inr lines"
  from lines have "lines = record_lines a" by (rule vcard_lines_Inr)
  with gh show ?thesis
    using record_lines_link_fields [OF gh] alice_output
    by (simp add: Let_def github_url_of_truthy escape_plain)
qed

theorem profile_handle_link_fields_witness:
  "truthy (github alice)
   \<and> sublist
       [ascii ''URL:https://github.com/alice'',
        ascii ''X-SOCIALPROFILE;TYPE=github:https://github.com/alice'',
        ascii ''item1.URL;type=pref:https://github.com/alice'',
        ascii ''item1.X-ABLabel:GitHub'']
       [ascii ''BEGIN:VCARD'', ascii ''VERSION:3.0'', ascii ''FN:Alice Example'',
        ascii ''N:Example;Alice;;;'', ascii ''EMAIL;TYPE=INTERNET:alice@example.com'',
        ascii ''URL:https://github.com/alice'',
        ascii ''X-SOCIALPROFILE;TYPE=github:https://github.com/alice'',
        ascii ''item1.URL;type=pref:https://github.com/alice'',
        ascii ''item1.X-ABLabel:GitHub'', ascii ''END:VCARD'']"
proof -
  have gh: "truthy (github alice)"
    by (simp add: alice_def truthy_def str_or_empty_def ascii_def)
  have e: "escape_vcard_value (Some (ascii ''https://github.com/alice''))
             = ascii ''https://github.com/alice''"
    by (simp add: escape_plain ascii_def plain_char_def)
  have g: "str_or_empty (github alice) = ascii ''alice''"
    by (simp add: alice_def str_or_empty_def)
  have h: "\<not> is_http_url (ascii ''alice'')"
    by (simp add: is_http_url_def ascii_def)
  from profile_handle_link_fields [OF gh alice_lines] gh show ?thesis
    by (simp add: Let_def g h e ascii_append [symmetric])
qed

lemma record_lines_photo:
  "truthy (avatar_uri a) \<Longrightarrow>
   ascii ''PHOTO;VALUE=URI:'' @ escape_vcard_value (avatar_uri a) \<in> set (record_lines a)"
  by (simp add: record_lines_def Let_def mem_opt)

lemma record_lines_key:
  "truthy (pgp_key_uri a) \<Longrightarrow>
   ascii ''KEY;VALUE=URI:'' @ escape_vcard_value (pgp_key_uri a) \<in> set (record_lines a)"
  by (simp add: record_lines_def Let_def mem_opt)

text \<open>
  C5. An avatar URI that is supplied and is not an http(s) URL makes \<open>build_vcard\<close>
  fail with \<open>InvalidURIError\<close>, whatever the other arguments; so does such a key URI.
  When neither is rejected (and the terminator is not empty) the builder succeeds, and
  a supplied avatar or key URI is emitted as a \<open>PHOTO;VALUE=URI\<close> or
  \<open>KEY;VALUE=URI\<close> field. \<open>ftp://x.com/a.jpg\<close> is rejected;
  \<open>https://x.com/a.jpg\<close> is accepted and emitted.
\<close>

theorem build_vcard_uri_check:
  "(avatar_rejected a \<longrightarrow> build_vcard a = Inl (InvalidURIError Avatar))
   \<and> (pgp_key_rejected a \<longrightarrow> (\<exists>f. build_vcard a = Inl (InvalidURIError f)))
   \<and> (\<not> avatar_rejected a \<and> \<not> pgp_key_rejected a \<and> line_ending a \<noteq> [] \<longrightarrow>
        (\<exists>out. build_vcard a = Inr out)
        \<and> (\<exists>lines. vcard_lines a = Inr lines
              \<and> (truthy (avatar_uri a) \<longrightarrow>
                    ascii ''PHOTO;VALUE=URI:'' @ escape_vcard_value (avatar_uri a) \<in> set lines)
              \<and> (truthy (pgp_key_uri a) \<longrightarrow>
                    ascii ''KEY;VALUE=URI:'' @ escape_vcard_value (pgp_key_uri a) \<in> set lines)))
   \<and> build_vcard (a\<lparr>avatar_uri := Some (ascii ''ftp://x.com/a.jpg'')\<rparr>)
       = Inl (InvalidURIError Avatar)
   \<and> build_vcard (alice\<lparr>avatar_uri := Some (ascii ''https://x.com/a.jpg'')\<rparr>) = Inr
       (ascii ''BEGIN:VCARD'' @ CRLF @ ascii ''VERSION:3.0'' @ CRLF
        @ ascii ''FN:Alice Example'' @ CRLF @ ascii ''N:Example;Alice;;;'' @ CRLF
        @ ascii ''EMAIL;TYPE=INTERNET:alice@example.com'' @ CRLF
        @ ascii ''URL:https://github.com/alice'' @ CRLF
        @ ascii ''X-SOCIALPROFILE;TYPE=github:https://github.com/alice'' @ CRLF
        @ ascii ''item1.URL;type=pref:https://github.com/alice'' @ CRLF
        @ ascii ''item1.X-ABLabel:GitHub'' @ CRLF
        @ ascii ''PHOTO;VALUE=URI:https://x.com/a.jpg'' @ CRLF
        @ ascii ''END:VCARD'' @ CRLF)"
proof (intro conjI impI)
  assume "avatar_rejected a"
  then show "build_vcard a = Inl (InvalidURIError Avatar)"
    by (simp add: vcard_lines_avatar_rejected build_vcard_error)
next
  assume r: "pgp_key_rejected a"
  show "\<exists>f. build_vcard a = Inl (InvalidURIError f)"
  proof (cases "avatar_rejected a")
    case True
    then show ?thesis by (simp add: vcard_lines_avatar_rejected build_vcard_error)
  next
    case False
    with r show ?thesis by (simp add: vcard_lines_pgp_key_rejected build_vcard_error)
  qed
next
  assume ok: "\<not> avatar_rejected a \<and> \<not> pgp_key_rejected a \<and> line_ending a \<noteq> []"
  then have lines: "vcard_lines a = Inr (record_lines a)"
    by (simp add: vcard_lines_accepted)
  with ok show "\<exists>out. build_vcard a = Inr out"
    using build_vcard_succeeds by blast
  from lines show "\<exists>lines. vcard_lines a = Inr lines
              \<and> (truthy (avatar_uri a) \<longrightarrow>
                    ascii ''PHOTO;VALUE=URI:'' @ escape_vcard_value (avatar_uri a) \<in> set lines)
              \<and> (truthy (pgp_key_uri a) \<longrightarrow>
                    ascii ''KEY;VALUE=URI:'' @ escape_vcard_value (pgp_key_uri a) \<in> set lines)"
    by (simp add: record_lines_photo record_lines_key)
next
  have "avatar_rejected (a\<lparr>avatar_uri := Some (ascii ''ftp://x.com/a.jpg'')\<rparr>)"
    by (simp add: avatar_rejected_def truthy_def str_or_empty_def is_http_url_def ascii_def)
  then show "build_vcard (a\<lparr>avatar_uri := Some (ascii ''ftp://x.com/a.jpg'')\<rparr>)
       = Inl (InvalidURIError Avatar)"
    by (simp add: vcard_lines_avatar_rejected build_vcard_error)
next
  let ?a = "alice\<lparr>avatar_uri := Some (ascii ''https://x.com/a.jpg'')\<rparr>"
  have "\<not> avatar_rejected ?a" "\<not> pgp_key_rejected ?a"
    by (simp_all add: avatar_rejected_def pgp_key_rejected_def alice_def truthy_def
          str_or_empty_def is_http_url_def ascii_def)
  then have lines: "vcard_lines ?a = Inr (record_lines ?a)"
    by (rule vcard_lines_accepted)
  have t: "terminator (line_ending ?a)"
    by (simp add: terminator_def alice_def)
  have url: "github_url_of (github ?a) = ascii ''https://github.com/alice''"
    by (simp add: github_url_of_def alice_def truthy_def str_or_empty_def is_http_url_def
          ascii_def)
  have "record_lines ?a =
     [ascii ''BEGIN:VCARD'', ascii ''VERSION:3.0'', ascii ''FN:Alice Example'',
      ascii ''N:Example;Alice;;;'', ascii ''EMAIL;TYPE=INTERNET:alice@example.com'',
      ascii ''URL:https://github.com/alice'',
      ascii ''X-SOCIALPROFILE;TYPE=github:https://github.com/alice'',
      ascii ''item1.URL;type=pref:https://github.com/alice'',
      ascii ''item1.X-ABLabel:GitHub'', ascii ''PHOTO;VALUE=URI:https://x.com/a.jpg'',
      ascii ''END:VCARD'']"
    using url
    by (simp add: record_lines_def Let_def alice_def truthy_def str_or_empty_def opt_def
          escape_option esc_token_def ascii_def)
  with build_vcard_of_lines [OF lines t]
  show "build_vcard ?a = Inr
       (ascii ''BEGIN:VCARD'' @ CRLF @ ascii ''VERSION:3.0'' @ CRLF
        @ ascii ''FN:Alice Example'' @ CRLF @ ascii ''N:Example;Alice;;;'' @ CRLF
        @ ascii ''EMAIL;TYPE=INTERNET:alice@example.com'' @ CRLF
        @ ascii ''URL:https://github.com/alice'' @ CRLF
        @ ascii ''X-SOCIALPROFILE;TYPE=github:https://github.com/alice'' @ CRLF
        @ ascii ''item1.URL;type=pref:https://github.com/alice'' @ CRLF
        @ ascii ''item1.X-ABLabel:GitHub'' @ CRLF
        @ ascii ''PHOTO;VALUE=URI:https://x.com/a.jpg'' @ CRLF
        @ ascii ''END:VCARD'' @ CRLF)"
    by (simp add: alice_def folded_def ascii_def)
qed

theorem build_vcard_uri_check_witness:
  "avatar_rejected (alice\<lparr>avatar_uri := Some (ascii ''a.jpg'')\<rparr>)
   \<and> build_vcard (alice\<lparr>avatar_uri := Some (ascii ''a.jpg'')\<rparr>) = Inl (InvalidURIError Avatar)
   \<and> pgp_key_rejected (alice\<lparr>pgp_key_uri := Some (ascii ''key.asc'')\<rparr>)
   \<and> build_vcard (alice\<lparr>pgp_key_uri := Some (ascii ''key.asc'')\<rparr>) = Inl (InvalidURIError PgpKey)
   \<and> \<not> avatar_rejected alice \<and> \<not> pgp_key_rejected alice \<and> line_ending alice \<noteq> []
   \<and> vcard_lines alice = Inr (record_lines alice)"
proof -
  have 1: "avatar_rejected (alice\<lparr>avatar_uri := Some (ascii ''a.jpg'')\<rparr>)"
    by (simp add: avatar_rejected_def truthy_def str_or_empty_def is_http_url_def ascii_def)
  have 2: "pgp_key_rejected (alice\<lparr>pgp_key_uri := Some (ascii ''key.asc'')\<rparr>)"
    by (simp add: pgp_key_rejected_def truthy_def str_or_empty_def is_http_url_def ascii_def)
  have 3: "\<not> avatar_rejected (alice\<lparr>pgp_key_uri := Some (ascii ''key.asc'')\<rparr>)"
    by (simp add: avatar_rejected_def alice_def truthy_def str_or_empty_def)
  have 4: "\<not> avatar_rejected alice" "\<not> pgp_key_rejected alice" "line_ending alice \<noteq> []"
    by (simp_all add: avatar_rejected_def pgp_key_rejected_def alice_def truthy_def
          str_or_empty_def)
  have 5: "build_vcard (alice\<lparr>pgp_key_uri := Some (ascii ''key.asc'')\<rparr>)
             = Inl (InvalidURIError PgpKey)"
    using 2 3 by (simp add: vcard_lines_pgp_key_rejected build_vcard_error)
  show ?thesis
    using build_vcard_uri_check [of "alice\<lparr>avatar_uri := Some (ascii ''a.jpg'')\<rparr>"]
      build_vcard_uri_check [of alice] 1 2 4 5
    by (auto simp: vcard_lines_accepted)
qed

lemma folded_physical: "folded t L = py_join t (physical_lines L)"
proof (cases "length L \<le> 75")
  case True
  then show ?thesis by (simp add: folded_def physical_lines_def)
next
  case False
  then have "chunks 75 L = take 75 L # chunks 75 (drop 75 L)"
    by (intro chunks_first) auto
  with False show ?thesis
    by (simp add: folded_def physical_lines_def py_join_continuation)
qed

lemma physical_lines_not_Nil: "physical_lines L \<noteq> []"
  by (simp add: physical_lines_def)

lemma py_join_append:
  "xs \<noteq> [] \<Longrightarrow> ys \<noteq> [] \<Longrightarrow> py_join t (xs @ ys) = py_join t xs @ t @ py_join t ys"
proof (induction t xs rule: py_join.induct)
  case (2 sep x)
  then show ?case by (cases ys) simp_all
qed simp_all

lemma py_join_concat:
  "\<forall>xs\<in>set xss. xs \<noteq> [] \<Longrightarrow> py_join t (map (py_join t) xss) = py_join t (concat xss)"
proof (induction xss)
  case Nil
  then show ?case by simp
next
  case (Cons xs xss)
  show ?case
  proof (cases "xss = []")
    case True
    then show ?thesis by simp
  next
    case False
    then obtain ys yss where y: "xss = ys # yss" by (cases xss) auto
    with Cons.prems have "concat xss \<noteq> []" by auto
    moreover from Cons.prems have "xs \<noteq> []" by simp
    ultimately have "py_join t (xs @ concat xss) = py_join t xs @ t @ py_join t (concat xss)"
      by (rule py_join_append [rotated])
    moreover have "py_join t (map (py_join t) xss) = py_join t (concat xss)"
      using Cons by simp
    ultimately show ?thesis using y by simp
  qed
qed

lemma physical_lines_properties:
  assumes "LF \<notin> set L" "p \<in> set (physical_lines L)"
  shows "LF \<notin> set p \<and> length p \<le> 76 \<and> (prefix [SPACE] p \<or> length p \<le> 75)"
proof (cases "length L \<le> 75")
  case True
  with assms show ?thesis by (simp add: physical_lines_def)
next
  case False
  with assms(2) consider "p = take 75 L"
    | c where "c \<in> set (chunks 75 (drop 75 L))" "p = SPACE # c"
    by (auto simp: physical_lines_def)
  then show ?thesis
  proof cases
    case 1
    with assms(1) show ?thesis by (auto dest: in_set_takeD)
  next
    case 2
    then obtain i j where "c = slice (drop 75 L) i j"
      using chunks_slices by blast
    then have "set c \<subseteq> set L"
      by (auto simp: slice_def dest!: in_set_takeD in_set_dropD)
    moreover have "length c \<le> 75" using 2 chunks_length by blast
    ultimately show ?thesis using 2 assms(1) by auto
  qed
qed

lemma build_vcard_segments:
  assumes "vcard_lines a = Inr lines" "terminator (line_ending a)"
    and "build_vcard a = Inr out"
  shows "py_split_ne (line_ending a) out = concat (map physical_lines lines) @ [[]]"
proof -
  let ?t = "line_ending a"
  let ?ps = "concat (map physical_lines lines)"
  have lines: "lines = record_lines a"
    using assms(1) by (rule vcard_lines_Inr)
  have "map (folded ?t) lines = map (py_join ?t) (map physical_lines lines)"
    by (simp add: folded_physical)
  moreover have "py_join ?t (map (py_join ?t) (map physical_lines lines)) = py_join ?t ?ps"
    by (intro py_join_concat) (auto simp: physical_lines_not_Nil)
  ultimately have "py_join ?t (map (folded ?t) lines) = py_join ?t ?ps"
    by (simp only:)
  with build_vcard_of_lines [OF assms(1,2)] assms(3)
  have out: "out = py_join ?t ?ps @ ?t" by simp
  have "physical_lines (hd lines) \<noteq> []" "lines \<noteq> []"
    using lines record_lines_not_Nil physical_lines_not_Nil by auto
  then have ne: "?ps \<noteq> []" by (cases lines) auto
  have "\<forall>p\<in>set ?ps. LF \<notin> set p"
    using lines record_lines_LF_free physical_lines_properties by fastforce
  then have "\<forall>p\<in>set ?ps. \<not> py_contains ?t p"
    using assms(2) LF_free_no_terminator by blast
  with ne assms(2) show ?thesis
    unfolding out by (simp add: py_split_join_terminated)
qed

text \<open>
  C10. For every input on which \<open>build_vcard\<close> succeeds, with terminator CRLF or LF,
  every segment of the payload between terminators has at most 76 code points, and a
  segment that does not begin with the continuation space has at most 75.
\<close>

theorem build_vcard_physical_lines:
  "build_vcard a = Inr out \<Longrightarrow> terminator (line_ending a) \<Longrightarrow>
   \<forall>seg\<in>set (py_split_ne (line_ending a) out).
     length seg \<le> 76 \<and> (prefix [SPACE] seg \<or> length seg \<le> 75)"
proof -
  assume out: "build_vcard a = Inr out" and t: "terminator (line_ending a)"
  then obtain lines where lines: "vcard_lines a = Inr lines"
    using build_vcard_lines_exist by blast
  then have free: "\<forall>l\<in>set lines. LF \<notin> set l"
    using vcard_lines_Inr record_lines_LF_free by blast
  have segs: "py_split_ne (line_ending a) out = concat (map physical_lines lines) @ [[]]"
    using lines t out by (rule build_vcard_segments)
  show ?thesis
  proof
    fix seg assume "seg \<in> set (py_split_ne (line_ending a) out)"
    then consider "seg = []" | L where "L \<in> set lines" "seg \<in> set (physical_lines L)"
      unfolding segs by auto
    then show "length seg \<le> 76 \<and> (prefix [SPACE] seg \<or> length seg \<le> 75)"
    proof cases
      case 1
      then show ?thesis by simp
    next
      case 2
      with free show ?thesis using physical_lines_properties by blast
    qed
  qed
qed

lemma alice_with_note_output:
  "build_vcard alice_with_note = Inr
     (ascii ''BEGIN:VCARD'' @ CRLF @ ascii ''VERSION:3.0'' @ CRLF
      @ ascii ''FN:Alice Example'' @ CRLF @ ascii ''N:Example;Alice;;;'' @ CRLF
      @ ascii ''EMAIL;TYPE=INTERNET:alice@example.com'' @ CRLF
      @ ascii ''URL:https://github.com/alice'' @ CRLF
      @ ascii ''X-SOCIALPROFILE;TYPE=github:https://github.com/alice'' @ CRLF
      @ ascii ''item1.URL;type=pref:https://github.com/alice'' @ CRLF
      @ ascii ''item1.X-ABLabel:GitHub'' @ CRLF
      @ ascii ''NOTE:Open for hire. Reach me by mail or through the profile linked above. R'' @ CRLF
      @ ascii '' eplies within two working days.'' @ CRLF
      @ ascii ''END:VCARD'' @ CRLF)"
proof -
  let ?a = alice_with_note
  have "\<not> avatar_rejected ?a" "\<not> pgp_key_rejected ?a"
    by (simp_all add: avatar_rejected_def pgp_key_rejected_def alice_def alice_with_note_def
          truthy_def str_or_empty_def)
  then have lines: "vcard_lines ?a = Inr (record_lines ?a)"
    by (rule vcard_lines_accepted)
  have t: "terminator (line_ending ?a)"
    by (simp add: terminator_def alice_def alice_with_note_def)
  have url: "github_url_of (github ?a) = ascii ''https://github.com/alice''"
    by (simp add: github_url_of_def alice_def alice_with_note_def truthy_def str_or_empty_def
          is_http_url_def ascii_def)
  have rl: "record_lines ?a =
     [ascii ''BEGIN:VCARD'', ascii ''VERSION:3.0'', ascii ''FN:Alice Example'',
      ascii ''N:Example;Alice;;;'', ascii ''EMAIL;TYPE=INTERNET:alice@example.com'',
      ascii ''URL:https://github.com/alice'',
      ascii ''X-SOCIALPROFILE;TYPE=github:https://github.com/alice'',
      ascii ''item1.URL;type=pref:https://github.com/alice'',
      ascii ''item1.X-ABLabel:GitHub'',
      ascii ''NOTE:Open for hire. Reach me by mail or through the profile linked above. Replies within two working days.'',
      ascii ''END:VCARD'']"
    using url
    by (simp add: record_lines_def Let_def alice_def alice_with_note_def truthy_def
          str_or_empty_def opt_def escape_option esc_token_def ascii_def)
  from build_vcard_of_lines [OF lines t] show ?thesis
    unfolding rl
    by (simp add: alice_def alice_with_note_def folded_def ascii_def chunks.simps)
qed

theorem build_vcard_physical_lines_witness:
  "build_vcard alice_with_note = Inr
     (ascii ''BEGIN:VCARD'' @ CRLF @ ascii ''VERSION:3.0'' @ CRLF
      @ ascii ''FN:Alice Example'' @ CRLF @ ascii ''N:Example;Alice;;;'' @ CRLF
      @ ascii ''EMAIL;TYPE=INTERNET:alice@example.com'' @ CRLF
      @ ascii ''URL:https://github.com/alice'' @ CRLF
      @ ascii ''X-SOCIALPROFILE;TYPE=github:https://github.com/alice'' @ CRLF
      @ ascii ''item1.URL;type=pref:https://github.com/alice'' @ CRLF
      @ ascii ''item1.X-ABLabel:GitHub'' @ CRLF
      @ ascii ''NOTE:Open for hire. Reach me by mail or through the profile linked above. R'' @ CRLF
      @ ascii '' eplies within two working days.'' @ CRLF
      @ ascii ''END:VCARD'' @ CRLF)
   \<and> terminator (line_ending alice_with_note)
   \<and> list_all (\<lambda>seg. length seg \<le> 76 \<and> (prefix [SPACE] seg \<or> length seg \<le> 75))
        (py_split_ne (line_ending alice_with_note)
          (ascii ''BEGIN:VCARD'' @ CRLF @ ascii ''VERSION:3.0'' @ CRLF
           @ ascii ''FN:Alice Example'' @ CRLF @ ascii ''N:Example;Alice;;;'' @ CRLF
           @ ascii ''EMAIL;TYPE=INTERNET:alice@example.com'' @ CRLF
           @ ascii ''URL:https://github.com/alice'' @ CRLF
           @ ascii ''X-SOCIALPROFILE;TYPE=github:https://github.com/alice'' @ CRLF
           @ ascii ''item1.URL;type=pref:https://github.com/alice'' @ CRLF
           @ ascii ''item1.X-ABLabel:GitHub'' @ CRLF
           @ ascii ''NOTE:Open for hire. Reach me by mail or through the profile linked above. R'' @ CRLF
           @ ascii '' eplies within two working days.'' @ CRLF
           @ ascii ''END:VCARD'' @ CRLF))"
proof -
  have t: "terminator (line_ending alice_with_note)"
    by (simp add: terminator_def alice_def alice_with_note_def)
  from build_vcard_physical_lines [OF alice_with_note_output t] alice_with_note_output t
  show ?thesis
    by (simp only: list_all_iff simp_thms)
qed

lemma sorted_opt: "sorted (opt b xs) = (b \<longrightarrow> sorted xs)"
  by (simp add: opt_def)

lemma record_lines_blocks:
  "map block_of (record_lines a) =
     [0, 1, 2, 2]
     @ opt (escape_vcard_value (phone a) \<noteq> []) [3]
     @ opt (escape_vcard_value (email a) \<noteq> []) [4]
     @ opt (truthy (github a)) [5, 5, 5, 5]
     @ opt (escape_vcard_value (city a) \<noteq> [] \<or> escape_vcard_value (country a) \<noteq> []) [6]
     @ opt (escape_vcard_value (note_text a) \<noteq> []) [7]
     @ opt (truthy (avatar_uri a)) [8]
     @ opt (truthy (pgp_key_uri a)) [9]
     @ opt (truthy (pgp_fingerprint a)) [10]
     @ opt (preferred_name a \<noteq> []) [11, 11]
     @ [12]"
  by (simp add: record_lines_def Let_def map_opt block_of_def field_name_def ascii_def)

lemma record_lines_sorted: "sorted (map block_of (record_lines a))"
  unfolding record_lines_blocks
  by (simp add: sorted_append sorted_opt ball_Un ball_opt)

lemma record_lines_ends:
  "take 2 (record_lines a) = [ascii ''BEGIN:VCARD'', ascii ''VERSION:3.0'']
   \<and> map field_name (take 2 (drop 2 (record_lines a))) = [ascii ''FN'', ascii ''N'']
   \<and> last (record_lines a) = ascii ''END:VCARD''"
  by (simp add: record_lines_def Let_def field_name_def ascii_def)

text \<open>
  C6. For every input on which \<open>build_vcard\<close> succeeds, with terminator CRLF or LF:
  the record begins with the BEGIN and VERSION fields, then FN and N; it ends with the
  END field; its fields stand in the order of the blocks (identity, phone, email,
  links, address, note, avatar, key URI, key fingerprint, nickname and preferred name,
  END); and the output is these fields, each folded at width 75, joined by the
  terminator and followed by one more terminator.
\<close>

theorem build_vcard_field_order:
  "build_vcard a = Inr out \<Longrightarrow> terminator (line_ending a) \<Longrightarrow>
   \<exists>lines folded_lines.
     vcard_lines a = Inr lines
     \<and> take 2 lines = [ascii ''BEGIN:VCARD'', ascii ''VERSION:3.0'']
     \<and> map field_name (take 2 (drop 2 lines)) = [ascii ''FN'', ascii ''N'']
     \<and> last lines = ascii ''END:VCARD''
     \<and> sorted (map block_of lines)
     \<and> map_result (\<lambda>L. fold_vcard_line L 75 (line_ending a)) lines = Inr folded_lines
     \<and> out = py_join (line_ending a) folded_lines @ line_ending a"
proof -
  assume out: "build_vcard a = Inr out" and t: "terminator (line_ending a)"
  then obtain lines where lines: "vcard_lines a = Inr lines"
    using build_vcard_lines_exist by blast
  then have rl: "lines = record_lines a" by (rule vcard_lines_Inr)
  let ?folded = "map (folded (line_ending a)) lines"
  have "map_result (\<lambda>L. fold_vcard_line L 75 (line_ending a)) lines = Inr ?folded"
    by (rule map_result_fold_75)
  moreover have "out = py_join (line_ending a) ?folded @ line_ending a"
    using build_vcard_of_lines [OF lines t] out by simp
  ultimately have all:
    "vcard_lines a = Inr lines
     \<and> take 2 lines = [ascii ''BEGIN:VCARD'', ascii ''VERSION:3.0'']
     \<and> map field_name (take 2 (drop 2 lines)) = [ascii ''FN'', ascii ''N'']
     \<and> last lines = ascii ''END:VCARD''
     \<and> sorted (map block_of lines)
     \<and> map_result (\<lambda>L. fold_vcard_line L 75 (line_ending a)) lines = Inr ?folded
     \<and> out = py_join (line_ending a) ?folded @ line_ending a"
    using lines record_lines_ends [of a] record_lines_sorted [of a] unfolding rl by simp
  show ?thesis
    by (rule exI [of _ lines], rule exI [of _ ?folded]) (rule all)
qed

theorem build_vcard_field_order_witness:
  "build_vcard alice_with_note = Inr
     (ascii ''BEGIN:VCARD'' @ CRLF @ ascii ''VERSION:3.0'' @ CRLF
      @ ascii ''FN:Alice Example'' @ CRLF @ ascii ''N:Example;Alice;;;'' @ CRLF
      @ ascii ''EMAIL;TYPE=INTERNET:alice@example.com'' @ CRLF
      @ ascii ''URL:https://github.com/alice'' @ CRLF
      @ ascii ''X-SOCIALPROFILE;TYPE=github:https://github.com/alice'' @ CRLF
      @ ascii ''item1.URL;type=pref:https://github.com/alice'' @ CRLF
      @ ascii ''item1.X-ABLabel:GitHub'' @ CRLF
      @ ascii ''NOTE:Open for hire. Reach me by mail or through the profile linked above. R'' @ CRLF
      @ ascii '' eplies within two working days.'' @ CRLF
      @ ascii ''END:VCARD'' @ CRLF)
   \<and> terminator (line_ending alice_with_note)
   \<and> map block_of (projr (vcard_lines alice_with_note)) = [0, 1, 2, 2, 4, 5, 5, 5, 5, 7, 12]
   \<and> sorted (map block_of (projr (vcard_lines alice_with_note)))"
proof -
  have t: "terminator (line_ending alice_with_note)"
    by (simp add: terminator_def alice_def alice_with_note_def)
  from build_vcard_field_order [OF alice_with_note_output t]
  have "sorted (map block_of (projr (vcard_lines alice_with_note)))"
    by auto
  moreover have "\<not> avatar_rejected alice_with_note" "\<not> pgp_key_rejected alice_with_note"
    by (simp_all add: avatar_rejected_def pgp_key_rejected_def alice_def alice_with_note_def
          truthy_def str_or_empty_def)
  then have "vcard_lines alice_with_note = Inr (record_lines alice_with_note)"
    by (rule vcard_lines_accepted)
  then have "map block_of (projr (vcard_lines alice_with_note)) = [0, 1, 2, 2, 4, 5, 5, 5, 5, 7, 12]"
    by (simp add: record_lines_blocks)
       (simp add: opt_def alice_def alice_with_note_def truthy_def str_or_empty_def
          escape_option ascii_def esc_token_def)
  ultimately show ?thesis
    using alice_with_note_output t by simp
qed

section \<open>Properties of the name resolution\<close>

lemma py_split_ws_unfold:
  "py_split_ws s =
     (if dropWhile py_isspace s = [] then []
      else takeWhile (\<lambda>c. \<not> py_isspace c) (dropWhile py_isspace s)
             # py_split_ws (dropWhile (\<lambda>c. \<not> py_isspace c) (dropWhile py_isspace s)))"
  by (subst py_split_ws.simps) (simp add: Let_def)

lemma py_split_ws_spaces: "\<forall>c\<in>set w. py_isspace c \<Longrightarrow> py_split_ws w = []"
  by (subst py_split_ws_unfold) simp

lemma py_split_ws_lstrip: "py_split_ws (dropWhile py_isspace s) = py_split_ws s"
  by (subst py_split_ws_unfold, subst (2) py_split_ws_unfold) simp

lemma nonspace_run_append:
  "\<forall>c\<in>set w. py_isspace c \<Longrightarrow>
   takeWhile (\<lambda>c. \<not> py_isspace c) (xs @ w) = takeWhile (\<lambda>c. \<not> py_isspace c) xs
   \<and> dropWhile (\<lambda>c. \<not> py_isspace c) (xs @ w) = dropWhile (\<lambda>c. \<not> py_isspace c) xs @ w"
proof (induction xs)
  case Nil
  then show ?case by (cases w) simp_all
next
  case (Cons x xs)
  then show ?case by simp
qed

lemma dropWhile_spaces_append:
  "\<forall>c\<in>set w. py_isspace c \<Longrightarrow>
   dropWhile py_isspace (xs @ w) =
     (if dropWhile py_isspace xs = [] then [] else dropWhile py_isspace xs @ w)"
  by (induction xs) simp_all

lemma py_split_ws_append_spaces:
  "\<forall>c\<in>set w. py_isspace c \<Longrightarrow> py_split_ws (s @ w) = py_split_ws s"
proof (induction s rule: py_split_ws.induct)
  case (1 s)
  let ?d = "dropWhile py_isspace s"
  let ?r = "dropWhile (\<lambda>c. \<not> py_isspace c) ?d"
  have L: "py_split_ws (s @ w) =
     (if dropWhile py_isspace (s @ w) = [] then []
      else takeWhile (\<lambda>c. \<not> py_isspace c) (dropWhile py_isspace (s @ w))
             # py_split_ws (dropWhile (\<lambda>c. \<not> py_isspace c) (dropWhile py_isspace (s @ w))))"
    by (rule py_split_ws_unfold)
  have R: "py_split_ws s =
     (if ?d = [] then [] else takeWhile (\<lambda>c. \<not> py_isspace c) ?d # py_split_ws ?r)"
    by (rule py_split_ws_unfold)
  have dsw: "dropWhile py_isspace (s @ w) = (if ?d = [] then [] else ?d @ w)"
    using 1(2) by (rule dropWhile_spaces_append)
  show ?case
  proof (cases "?d = []")
    case True
    then have "dropWhile py_isspace (s @ w) = []"
      by (simp only: dsw if_True simp_thms)
    then have "py_split_ws (s @ w) = []"
      by (simp only: L if_True simp_thms)
    moreover have "py_split_ws s = []"
      using True by (simp only: R if_True simp_thms)
    ultimately show ?thesis by (simp only:)
  next
    case False
    then have d: "dropWhile py_isspace (s @ w) = ?d @ w"
      by (simp only: dsw if_False simp_thms)
    have tw: "takeWhile (\<lambda>c. \<not> py_isspace c) (?d @ w) = takeWhile (\<lambda>c. \<not> py_isspace c) ?d"
      and dw: "dropWhile (\<lambda>c. \<not> py_isspace c) (?d @ w) = ?r @ w"
      using nonspace_run_append [OF 1(2), of ?d] by blast+
    have ih: "py_split_ws (?r @ w) = py_split_ws ?r"
      using 1(2) False by (intro 1(1) [OF refl])
    have "?d @ w \<noteq> []" using False by blast
    then have "py_split_ws (s @ w) =
        takeWhile (\<lambda>c. \<not> py_isspace c) ?d # py_split_ws ?r"
      by (simp only: L d tw dw ih if_False simp_thms)
    moreover have "py_split_ws s = takeWhile (\<lambda>c. \<not> py_isspace c) ?d # py_split_ws ?r"
      using False by (simp only: R if_False simp_thms)
    ultimately show ?thesis by (simp only:)
  qed
qed

lemma rstrip_decompose:
  "s = rev (dropWhile P (rev s)) @ rev (takeWhile P (rev s))"
  by (metis rev_append rev_rev_ident takeWhile_dropWhile_id)

lemma py_split_ws_strip: "py_split_ws (py_strip s) = py_split_ws s"
proof -
  let ?d = "dropWhile py_isspace s"
  have "?d = py_strip s @ rev (takeWhile py_isspace (rev ?d))"
    unfolding py_strip_def by (rule rstrip_decompose)
  moreover have "\<forall>c\<in>set (rev (takeWhile py_isspace (rev ?d))). py_isspace c"
    by (auto dest: set_takeWhileD)
  ultimately have "py_split_ws ?d = py_split_ws (py_strip s)"
    using py_split_ws_append_spaces by metis
  then show ?thesis by (simp add: py_split_ws_lstrip)
qed

lemma py_strip_fixed:
  assumes "u \<noteq> []" "\<not> py_isspace (hd u)" "\<not> py_isspace (last u)"
  shows "py_strip u = u"
proof -
  have "dropWhile py_isspace u = u"
    using assms by (simp add: dropWhile_eq_self_iff)
  moreover have "dropWhile py_isspace (rev u) = rev u"
    using assms by (simp add: dropWhile_eq_self_iff hd_rev)
  ultimately show ?thesis by (simp add: py_strip_def)
qed

lemma last_dropWhile: "dropWhile P xs \<noteq> [] \<Longrightarrow> last (dropWhile P xs) = last xs"
  by (metis last_appendR takeWhile_dropWhile_id)

lemma py_strip_ends:
  assumes "py_strip s \<noteq> []"
  shows "\<not> py_isspace (hd (py_strip s)) \<and> \<not> py_isspace (last (py_strip s))"
proof -
  let ?d = "dropWhile py_isspace s"
  let ?e = "dropWhile py_isspace (rev ?d)"
  from assms have e: "?e \<noteq> []" by (simp add: py_strip_def)
  have d: "?d \<noteq> []"
  proof
    assume "?d = []"
    then have "?e = []" by (metis dropWhile.simps(1) rev.simps(1))
    with e show False by contradiction
  qed
  have "last (py_strip s) = hd ?e"
    using e by (simp add: py_strip_def last_rev)
  moreover have "\<not> py_isspace (hd ?e)" using e by (rule hd_dropWhile)
  moreover have "hd (py_strip s) = last ?e"
    using e by (simp add: py_strip_def hd_rev)
  moreover have "last ?e = last (rev ?d)" using e by (rule last_dropWhile)
  moreover have "last (rev ?d) = hd ?d" using d by (simp add: last_rev)
  moreover have "\<not> py_isspace (hd ?d)" using d by (rule hd_dropWhile)
  ultimately show ?thesis by simp
qed

lemma py_strip_idem: "py_strip (py_strip s) = py_strip s"
proof (cases "py_strip s = []")
  case True
  moreover have "py_strip [] = []" by (simp add: py_strip_def)
  ultimately show ?thesis by simp
next
  case False
  then show ?thesis using py_strip_ends py_strip_fixed by blast
qed

lemma py_strip_joined:
  assumes "py_strip x \<noteq> []" "py_strip y \<noteq> []"
  shows "py_strip (py_strip x @ SPACE # py_strip y) = py_strip x @ SPACE # py_strip y"
proof -
  have "hd (py_strip x @ SPACE # py_strip y) = hd (py_strip x)"
    using assms by simp
  moreover have "last (py_strip x @ SPACE # py_strip y) = last (py_strip y)"
    using assms by simp
  ultimately show ?thesis
    using assms py_strip_ends by (intro py_strip_fixed) auto
qed

lemma py_split_ws_Nil: "py_split_ws r = [] \<Longrightarrow> \<forall>c\<in>set r. py_isspace c"
proof -
  assume e: "py_split_ws r = []"
  have "py_split_ws r =
     (if dropWhile py_isspace r = [] then []
      else takeWhile (\<lambda>c. \<not> py_isspace c) (dropWhile py_isspace r)
             # py_split_ws (dropWhile (\<lambda>c. \<not> py_isspace c) (dropWhile py_isspace r)))"
    by (rule py_split_ws_unfold)
  then have "dropWhile py_isspace r \<noteq> [] \<Longrightarrow> py_split_ws r \<noteq> []"
    by (simp only: if_False simp_thms) simp
  with e have "dropWhile py_isspace r = []" by blast
  then show ?thesis by simp
qed

lemma py_split_ws_single:
  assumes "py_split_ws s = [tok]"
  shows "py_strip s = tok"
proof -
  let ?d = "dropWhile py_isspace s"
  let ?r = "dropWhile (\<lambda>c. \<not> py_isspace c) ?d"
  have R: "py_split_ws s =
     (if ?d = [] then [] else takeWhile (\<lambda>c. \<not> py_isspace c) ?d # py_split_ws ?r)"
    by (rule py_split_ws_unfold)
  have d: "?d \<noteq> []"
  proof
    assume "?d = []"
    then have "py_split_ws s = []" by (simp only: R if_True simp_thms)
    with assms show False by simp
  qed
  then have "py_split_ws s = takeWhile (\<lambda>c. \<not> py_isspace c) ?d # py_split_ws ?r"
    by (simp only: R if_False simp_thms)
  with assms have tok: "tok = takeWhile (\<lambda>c. \<not> py_isspace c) ?d"
    and rest: "py_split_ws ?r = []"
    by simp_all
  from rest have sp: "\<forall>c\<in>set ?r. py_isspace c"
    by (rule py_split_ws_Nil)
  have dec: "?d = tok @ ?r" unfolding tok by simp
  have "\<not> py_isspace (hd ?d)" using d by (rule hd_dropWhile)
  then have tne: "tok \<noteq> []" unfolding tok using d by (simp add: takeWhile_eq_Nil_iff)
  have "\<forall>c\<in>set tok. \<not> py_isspace c"
    unfolding tok by (auto dest: set_takeWhileD)
  then have "\<not> py_isspace (last tok)" using tne by simp
  then have "dropWhile py_isspace (rev tok) = rev tok"
    using tne by (simp add: dropWhile_eq_self_iff hd_rev)
  moreover have "dropWhile py_isspace (rev ?r @ rev tok) = dropWhile py_isspace (rev tok)"
  proof (rule dropWhile_append2)
    fix x assume "x \<in> set (rev ?r)"
    then have "x \<in> set ?r" by (simp only: set_rev)
    with sp show "py_isspace x" by blast
  qed
  then have "dropWhile py_isspace (rev (tok @ ?r)) = dropWhile py_isspace (rev tok)"
    by (simp only: rev_append)
  ultimately have "rev (dropWhile py_isspace (rev (tok @ ?r))) = tok"
    by (simp only: rev_rev_ident)
  moreover from dec have "rev (dropWhile py_isspace (rev ?d))
      = rev (dropWhile py_isspace (rev (tok @ ?r)))"
    by (rule arg_cong [where f = "\<lambda>x. rev (dropWhile py_isspace (rev x))"])
  ultimately have "rev (dropWhile py_isspace (rev ?d)) = tok" by (rule trans [rotated])
  then show ?thesis by (simp only: py_strip_def)
qed

lemma structured_names_given:
  "py_strip g \<noteq> [] \<or> py_strip sn \<noteq> [] \<Longrightarrow>
   main_structured_names n g sn = (py_strip g, py_strip sn)"
  by (auto simp: main_structured_names_def Let_def)

lemma structured_names_split:
  assumes "py_strip g = []" "py_strip sn = []"
  shows "main_structured_names n g sn =
           (if 2 \<le> length (py_split_ws n)
            then (py_join [SPACE] (butlast (py_split_ws n)), last (py_split_ws n))
            else (py_strip n, []))"
  using assms by (simp add: main_structured_names_def Let_def py_split_ws_strip)

lemma py_strip_Nil: "py_strip [] = []"
  by (simp add: py_strip_def)

lemma py_split_ws_strip_Nil: "py_strip n = [] \<Longrightarrow> py_split_ws n = []"
  using py_split_ws_strip [of n] py_split_ws_spaces [of "[]"] by simp

lemma structured_names_no_name:
  assumes "py_strip n = []"
  shows "main_structured_names n g sn = (py_strip g, py_strip sn)"
proof (cases "py_strip g \<noteq> [] \<or> py_strip sn \<noteq> []")
  case True
  then show ?thesis by (rule structured_names_given)
next
  case False
  then show ?thesis
    using assms by (simp add: structured_names_split py_split_ws_strip_Nil)
qed

lemma joined_names_stripped:
  "py_strip (py_join [SPACE] (filter (\<lambda>p. p \<noteq> []) [py_strip g, py_strip sn]))
     = py_join [SPACE] (filter (\<lambda>p. p \<noteq> []) [py_strip g, py_strip sn])"
  by (simp add: py_strip_Nil py_strip_idem py_strip_joined)

lemma py_split_ws_Ada:
  "py_split_ws (ascii ''Ada Lovelace'') = [ascii ''Ada'', ascii ''Lovelace'']"
  by (simp add: ascii_def py_split_ws_unfold py_isspace_def)

lemma py_strip_Ada: "py_strip (ascii ''Ada Lovelace'') = ascii ''Ada Lovelace''"
  by (simp add: ascii_def py_strip_def py_isspace_def)

text \<open>
  C7. Name resolution in \<open>main\<close>, names taken after \<open>strip()\<close>. Without a full
  name, the formatted name is the given name and the surname, those of the two that
  are not empty, joined by a space; or, when a preferred name is supplied, the
  preferred name, followed by a space and the surname if there is one. With a full
  name, the formatted name is the full name. When neither given name nor surname is
  supplied, the full name is split at whitespace: of two or more tokens the last is
  the surname and the others, joined by spaces, are the given name; a single token is
  the given name and the surname is empty. Otherwise given name and surname are the
  ones supplied. For the full name "Ada Lovelace" alone the given name is "Ada" and
  the surname "Lovelace".
\<close>

theorem main_name_resolution:
  "(py_strip name = [] \<and> pref = [] \<longrightarrow>
      fst (main_resolve_names name g sn pref)
        = py_join [SPACE] (filter (\<lambda>p. p \<noteq> []) [py_strip g, py_strip sn]))
   \<and> (py_strip name = [] \<and> pref \<noteq> [] \<longrightarrow>
      fst (main_resolve_names name g sn pref)
        = py_strip pref @ (if py_strip sn = [] then [] else SPACE # py_strip sn))
   \<and> (py_strip name \<noteq> [] \<longrightarrow> fst (main_resolve_names name g sn pref) = py_strip name)
   \<and> (py_strip g = [] \<and> py_strip sn = [] \<longrightarrow>
        (2 \<le> length (py_split_ws name) \<longrightarrow>
           snd (main_resolve_names name g sn pref)
             = (py_join [SPACE] (butlast (py_split_ws name)), last (py_split_ws name)))
        \<and> (length (py_split_ws name) = 1 \<longrightarrow>
           snd (main_resolve_names name g sn pref) = (hd (py_split_ws name), [])))
   \<and> (py_strip g \<noteq> [] \<or> py_strip sn \<noteq> [] \<longrightarrow>
        snd (main_resolve_names name g sn pref) = (py_strip g, py_strip sn))
   \<and> main_resolve_names (ascii ''Ada Lovelace'') [] [] []
       = (ascii ''Ada Lovelace'', ascii ''Ada'', ascii ''Lovelace'')"
proof (intro conjI impI)
  assume "py_strip name = [] \<and> pref = []"
  then show "fst (main_resolve_names name g sn pref)
        = py_join [SPACE] (filter (\<lambda>p. p \<noteq> []) [py_strip g, py_strip sn])"
    using joined_names_stripped [of g sn]
    by (simp add: main_resolve_names_def structured_names_no_name Let_def)
next
  assume "py_strip name = [] \<and> pref \<noteq> []"
  then show "fst (main_resolve_names name g sn pref)
        = py_strip pref @ (if py_strip sn = [] then [] else SPACE # py_strip sn)"
    by (simp add: main_resolve_names_def structured_names_no_name Let_def)
next
  assume "py_strip name \<noteq> []"
  then show "fst (main_resolve_names name g sn pref) = py_strip name"
    by (simp add: main_resolve_names_def Let_def split: prod.splits)
next
  assume "py_strip g = [] \<and> py_strip sn = []" and "2 \<le> length (py_split_ws name)"
  then show "snd (main_resolve_names name g sn pref)
             = (py_join [SPACE] (butlast (py_split_ws name)), last (py_split_ws name))"
    by (simp add: main_resolve_names_def structured_names_split Let_def)
next
  assume e: "py_strip g = [] \<and> py_strip sn = []" and one: "length (py_split_ws name) = 1"
  then obtain tok where tok: "py_split_ws name = [tok]"
    by (cases "py_split_ws name") auto
  then have "py_strip name = tok" by (rule py_split_ws_single)
  with e tok show "snd (main_resolve_names name g sn pref) = (hd (py_split_ws name), [])"
    by (simp add: main_resolve_names_def structured_names_split Let_def)
next
  assume "py_strip g \<noteq> [] \<or> py_strip sn \<noteq> []"
  then show "snd (main_resolve_names name g sn pref) = (py_strip g, py_strip sn)"
    by (simp add: main_resolve_names_def structured_names_given Let_def)
next
  show "main_resolve_names (ascii ''Ada Lovelace'') [] [] []
       = (ascii ''Ada Lovelace'', ascii ''Ada'', ascii ''Lovelace'')"
    by (simp add: main_resolve_names_def structured_names_split py_strip_Nil py_split_ws_Ada
          py_strip_Ada Let_def)
       (simp add: ascii_def)
qed

theorem main_name_resolution_witness:
  "py_strip [] = [] \<and> 2 \<le> length (py_split_ws (ascii ''Ada Lovelace''))
   \<and> snd (main_resolve_names (ascii ''Ada Lovelace'') [] [] [])
       = (ascii ''Ada'', ascii ''Lovelace'')
   \<and> py_strip (ascii ''Ada'') \<noteq> []
   \<and> fst (main_resolve_names [] (ascii ''Ada'') (ascii ''Lovelace'') [])
       = ascii ''Ada'' @ [SPACE] @ ascii ''Lovelace''
   \<and> fst (main_resolve_names [] (ascii ''Ada'') (ascii ''Lovelace'') (ascii ''Countess''))
       = ascii ''Countess'' @ [SPACE] @ ascii ''Lovelace''
   \<and> snd (main_resolve_names [] (ascii ''Ada'') (ascii ''Lovelace'') [])
       = (ascii ''Ada'', ascii ''Lovelace'')"
proof -
  have s: "py_strip (ascii ''Ada'') = ascii ''Ada''"
    "py_strip (ascii ''Lovelace'') = ascii ''Lovelace''"
    "py_strip (ascii ''Countess'') = ascii ''Countess''"
    by (simp_all add: ascii_def py_strip_def py_isspace_def)
  have ne: "ascii ''Ada'' \<noteq> []" "ascii ''Lovelace'' \<noteq> []" "ascii ''Countess'' \<noteq> []"
    by (simp_all add: ascii_def)
  have toks: "2 \<le> length (py_split_ws (ascii ''Ada Lovelace''))"
    by (simp add: py_split_ws_Ada)
  have 1: "snd (main_resolve_names (ascii ''Ada Lovelace'') [] [] [])
       = (ascii ''Ada'', ascii ''Lovelace'')"
    using main_name_resolution
        [where name = "ascii ''Ada Lovelace''" and g = "[]" and sn = "[]" and pref = "[]"] toks
    by (simp add: py_strip_Nil py_split_ws_Ada)
  have 2: "fst (main_resolve_names [] (ascii ''Ada'') (ascii ''Lovelace'') [])
       = ascii ''Ada'' @ [SPACE] @ ascii ''Lovelace''"
    and 3: "snd (main_resolve_names [] (ascii ''Ada'') (ascii ''Lovelace'') [])
       = (ascii ''Ada'', ascii ''Lovelace'')"
    using main_name_resolution
        [where name = "[]" and g = "ascii ''Ada''" and sn = "ascii ''Lovelace''" and pref = "[]"]
    by (simp_all add: py_strip_Nil s ne)
  have 4: "fst (main_resolve_names [] (ascii ''Ada'') (ascii ''Lovelace'') (ascii ''Countess''))
       = ascii ''Countess'' @ [SPACE] @ ascii ''Lovelace''"
    using main_name_resolution
        [where name = "[]" and g = "ascii ''Ada''" and sn = "ascii ''Lovelace''"
           and pref = "ascii ''Countess''"]
    by (simp add: py_strip_Nil s ne)
  show ?thesis
    using 1 2 3 4 toks by (simp add: py_strip_Nil s ne)
qed

end
